theory Spec2Isabelle
  imports Main "HOL-Library.Word" "HOL-Library.Signed_Division"
begin

unbundle bit_operations_syntax

section \<open>Common types\<close>

text \<open>
  Go's \<open>int64\<close> is a 64-bit word read as two's complement; a \<open>float64\<close> is kept as its
  64 bits (IEEE 754 binary64), since the code only tests samples for NaN and copies them.
\<close>

type_synonym int64 = "64 word"
type_synonym float64 = "64 word"

text \<open>A Go call either returns or panics (index out of range, division by zero, nil
  dereference).\<close>

datatype 'a exec = Panic | Ok 'a

text \<open>The error values that the sources create or compare against, and the errors that the
  outside world (context, transport, limiter) hands in.\<close>

datatype error =
    ErrNotFound
  | ErrFailedToFetch string int
  | ErrResponseLengthMismatch
  | ErrResponseStartTimeMismatch
  | ContextCanceled
  | ContextDeadlineExceeded
  | OtherError string

text \<open>\<open>math.IsNaN\<close>: all exponent bits set and a non-zero mantissa.\<close>

definition IsNaN :: "float64 \<Rightarrow> bool" where
  "IsNaN f \<longleftrightarrow>
     f AND 0x7FF0000000000000 = 0x7FF0000000000000 \<and> f AND 0x000FFFFFFFFFFFFF \<noteq> 0"

text \<open>\<open>math.NaN()\<close> returns the bit pattern \<open>0x7FF8000000000001\<close>.\<close>

definition NaN :: float64 where
  "NaN = 0x7FF8000000000001"

text \<open>Go's \<open>/\<close> and \<open>%\<close> on \<open>int64\<close> truncate towards zero and wrap around; the callers
  check the divisor for zero first, where Go panics.\<close>

definition go_quo :: "int64 \<Rightarrow> int64 \<Rightarrow> int64" where
  "go_quo x y = word_of_int (sint x sdiv sint y)"

definition go_rem :: "int64 \<Rightarrow> int64 \<Rightarrow> int64" where
  "go_rem x y = word_of_int (sint x smod sint y)"

section \<open>zipper/types/response.go: fetch responses\<close>

text \<open>
  \<open>protov3.FetchResponse\<close> is declared in the protocol package; the fields below are the
  ones the repository reads and writes. Any further field of the protocol message lives in
  the record's extension slot, which no function here touches.
\<close>

record FetchResponse =
  Name :: string
  StartTime :: int64
  StopTime :: int64
  StepTime :: int64
  ConsolidationFunc :: string
  XFilesFactor :: "32 word"
  Values :: "float64 list"
  AppliedFunctions :: "string list"

text \<open>\<open>swapFetchResponses\<close>: eight pairwise field exchanges through the two pointers.\<close>

definition swapFetchResponses ::
  "'a FetchResponse_scheme \<Rightarrow> 'a FetchResponse_scheme
     \<Rightarrow> 'a FetchResponse_scheme \<times> 'a FetchResponse_scheme" where
  "swapFetchResponses m1 m2 =
     (m1\<lparr>FetchResponse.Name := FetchResponse.Name m2, StartTime := StartTime m2, StepTime := StepTime m2,
         ConsolidationFunc := ConsolidationFunc m2, XFilesFactor := XFilesFactor m2,
         Values := Values m2, AppliedFunctions := AppliedFunctions m2,
         StopTime := StopTime m2\<rparr>,
      m2\<lparr>FetchResponse.Name := FetchResponse.Name m1, StartTime := StartTime m1, StepTime := StepTime m1,
         ConsolidationFunc := ConsolidationFunc m1, XFilesFactor := XFilesFactor m1,
         Values := Values m1, AppliedFunctions := AppliedFunctions m1,
         StopTime := StopTime m1\<rparr>)"

text \<open>
  The padding loop of \<open>mergeFetchResponses\<close>:
  \<^verbatim>\<open>for i := 0; i < len(m1.Values)-len(m2.Values); i++ { m2.Values = append(m2.Values, math.NaN()) }\<close>
  The bound is evaluated again on every round, with the grown \<open>m2.Values\<close>.
\<close>

function pad_loop :: "nat \<Rightarrow> float64 list \<Rightarrow> float64 list \<Rightarrow> float64 list" where
  "pad_loop i v1 v2 =
     (if int i < int (length v1) - int (length v2)
      then pad_loop (Suc i) v1 (v2 @ [NaN])
      else v2)"
  by pat_completeness auto
termination
  by (relation "measure (\<lambda>(i, v1, v2). nat (int (length v1) - int (length v2) - int i))") auto

declare pad_loop.simps [simp del]

text \<open>
  The resampling loop of \<open>mergeFetchResponses\<close>:
  \<^verbatim>\<open>for ts := m1.StartTime; ts < m1.StopTime; ts += m1.StepTime {
      idx := (ts - m1.StartTime) / m2.StepTime
      values = append(values, m2.Values[idx]) }\<close>
  It need not end (a step of zero), so the result is an option: \<open>None\<close> is a run that
  never returns.
\<close>

partial_function (option) resample_loop ::
  "int64 \<Rightarrow> int64 \<Rightarrow> int64 \<Rightarrow> int64 \<Rightarrow> float64 list \<Rightarrow> int64 \<Rightarrow> float64 list
     \<Rightarrow> float64 list exec option" where
  "resample_loop start1 stop1 step1 step2 vals2 ts values =
     (if sint ts < sint stop1
      then (if step2 = 0 then Some Panic
            else if sint (go_quo (ts - start1) step2) < 0
                    \<or> int (length vals2) \<le> sint (go_quo (ts - start1) step2)
                 then Some Panic
                 else resample_loop start1 stop1 step1 step2 vals2 (ts + step1)
                        (values @ [vals2 ! nat (sint (go_quo (ts - start1) step2))]))
      else Some (Ok values))"

declare resample_loop.simps [code]

text \<open>
  Lines 107 to 149 of \<open>mergeFetchResponses\<close>, up to the label \<open>out\<close>. The result carries
  the error of an early \<open>return\<close> (\<open>None\<close> when control reaches \<open>out\<close>) and the two
  metrics as the pointers leave them.
\<close>

definition equalizeLengths ::
  "'a FetchResponse_scheme \<Rightarrow> 'a FetchResponse_scheme
     \<Rightarrow> (error option \<times> 'a FetchResponse_scheme \<times> 'a FetchResponse_scheme) exec option" where
  "equalizeLengths a b =
     (if length (Values a) \<noteq> length (Values b)
      then (let (m1, m2) = (if length (Values a) < length (Values b)
                            then swapFetchResponses a b else (a, b));
                interpolate = (sint (StepTime m1) < sint (StepTime m2))
            in if \<not> interpolate \<and> StartTime m1 = StartTime m2
               then Some (Ok (None, m1, m2\<lparr>Values := pad_loop 0 (Values m1) (Values m2)\<rparr>))
               else if \<not> interpolate then Some (Ok (Some ErrResponseLengthMismatch, m1, m2))
               else if StepTime m2 = 0 then Some Panic
               else if StopTime m1 - go_rem (StopTime m1) (StepTime m2) \<noteq> StopTime m2
               then Some (Ok (Some ErrResponseLengthMismatch, m1, m2))
               else (case resample_loop (StartTime m1) (StopTime m1) (StepTime m1)
                            (StepTime m2) (Values m2) (StartTime m1) [] of
                       None \<Rightarrow> None
                     | Some Panic \<Rightarrow> Some Panic
                     | Some (Ok values) \<Rightarrow>
                         Some (Ok (None, m1,
                                   m2\<lparr>Values := values, StepTime := StepTime m1,
                                      StartTime := StartTime m1, StopTime := StopTime m1\<rparr>))))
      else Some (Ok (None, a, b)))"

text \<open>
  The gap-filling loop: \<open>for i := range m1.Values\<close>; \<open>m2.Values[i]\<close> is read only where
  \<open>m1.Values[i]\<close> is NaN, and panics when \<open>m2.Values\<close> is too short.
\<close>

function gap_fill :: "nat \<Rightarrow> float64 list \<Rightarrow> float64 list \<Rightarrow> float64 list exec" where
  "gap_fill i v1 v2 =
     (if i < length v1
      then (if \<not> IsNaN (v1 ! i) then gap_fill (Suc i) v1 v2
            else if length v2 \<le> i then Panic
            else if \<not> IsNaN (v2 ! i) then gap_fill (Suc i) (v1[i := v2 ! i]) v2
            else gap_fill (Suc i) v1 v2)
      else Ok v1)"
  by pat_completeness auto
termination
  by (relation "measure (\<lambda>(i, v1, v2). length v1 - i)") auto

declare gap_fill.simps [simp del]

text \<open>\<open>mergeFetchResponses\<close>: the returned error and both metrics after the call.\<close>

definition mergeFetchResponses ::
  "'a FetchResponse_scheme \<Rightarrow> 'a FetchResponse_scheme
     \<Rightarrow> (error option \<times> 'a FetchResponse_scheme \<times> 'a FetchResponse_scheme) exec option" where
  "mergeFetchResponses a b =
     (case equalizeLengths a b of
        None \<Rightarrow> None
      | Some Panic \<Rightarrow> Some Panic
      | Some (Ok (Some e, m1, m2)) \<Rightarrow> Some (Ok (Some e, m1, m2))
      | Some (Ok (None, m1, m2)) \<Rightarrow>
          (if StartTime m1 \<noteq> StartTime m2
           then Some (Ok (Some ErrResponseStartTimeMismatch, m1, m2))
           else (case gap_fill 0 (Values m1) (Values m2) of
                   Panic \<Rightarrow> Some Panic
                 | Ok vs \<Rightarrow> Some (Ok (None, m1\<lparr>Values := vs\<rparr>, m2)))))"

text \<open>
  Notions to state what the merge takes from its inputs. \<open>resample_index\<close> is the index
  that the resampling loop reads in its round \<open>m\<close>, counted from the round that starts at
  \<open>ts\<close>. \<open>grid_aligned lg sh i\<close> is the sample of the metric \<open>sh\<close> that the spec aligns
  with index \<open>i\<close> of the longer (or equally long) metric \<open>lg\<close>: the sample at \<open>i\<close> itself
  for equal lengths; the nearest-lower sample \<open>sh.values[(ts - lg.start) / sh.step]\<close> for the
  \<open>i\<close>-th timestamp \<open>ts\<close> of \<open>lg\<close>'s grid when \<open>lg\<close> has the smaller step; otherwise the
  sample at \<open>i\<close>, or NaN beyond the end of \<open>sh\<close>. It is \<open>None\<close> where \<open>sh\<close> has no
  such sample.
\<close>

definition resample_index :: "int64 \<Rightarrow> int64 \<Rightarrow> int64 \<Rightarrow> int64 \<Rightarrow> nat \<Rightarrow> int" where
  "resample_index start1 step1 step2 ts m = sint (go_quo (ts + of_nat m * step1 - start1) step2)"

definition grid_aligned ::
  "'a FetchResponse_scheme \<Rightarrow> 'a FetchResponse_scheme \<Rightarrow> nat \<Rightarrow> float64 option" where
  "grid_aligned lg sh i =
     (if length (Values sh) = length (Values lg)
      then (if i < length (Values sh) then Some (Values sh ! i) else None)
      else if sint (StepTime lg) < sint (StepTime sh)
      then (if 0 \<le> sint (go_quo (of_nat i * StepTime lg) (StepTime sh))
               \<and> sint (go_quo (of_nat i * StepTime lg) (StepTime sh)) < int (length (Values sh))
            then Some (Values sh ! nat (sint (go_quo (of_nat i * StepTime lg) (StepTime sh))))
            else None)
      else Some (if i < length (Values sh) then Values sh ! i else NaN))"

text \<open>
  \<open>ServerFetchResponse\<close>. \<open>Response\<close> is a pointer (\<open>None\<close> is nil). \<open>Stats\<close> and its
  \<open>Merge\<close> are declared outside the files at hand: the statistics are a type parameter
  and \<open>Stats.Merge\<close> is handed in as a function.
\<close>

record MultiFetchResponse =
  Metrics :: "FetchResponse list"

record 's ServerFetchResponse =
  Response :: "MultiFetchResponse option"
  Stats :: 's
  Err :: "error option"

text \<open>The index \<open>metrics\<close> of \<open>ServerFetchResponse.Merge\<close>: name to position in
  \<open>first.Response.Metrics\<close>, a later position replacing an earlier one.\<close>

fun metricsIndex :: "nat \<Rightarrow> FetchResponse list \<Rightarrow> (string \<rightharpoonup> nat) \<Rightarrow> (string \<rightharpoonup> nat)" where
  "metricsIndex i [] m = m"
| "metricsIndex i (x # xs) m = metricsIndex (Suc i) xs (m(FetchResponse.Name x \<mapsto> i))"

text \<open>
  The second loop of \<open>ServerFetchResponse.Merge\<close>, over \<open>i := range second.Response.Metrics\<close>:
  \<^verbatim>\<open>if j, ok := metrics[second.Response.Metrics[i].Name]; ok {
      err := mergeFetchResponses(&first.Response.Metrics[i], &second.Response.Metrics[j])
      if err != nil { continue }
  } else {
      first.Response.Metrics = append(first.Response.Metrics, second.Response.Metrics[i])
  }\<close>
  Both index expressions are bounds-checked by Go. What \<open>mergeFetchResponses\<close> wrote through
  the pointers stays written when it returns an error. Slices are lists here: an appended
  metric is a copy, whereas in Go its samples share their array with the metric of
  \<open>second\<close> it was copied from; the two differ only when such an appended metric is later
  handed to \<open>mergeFetchResponses\<close> and written to.
\<close>

function fetch_merge_loop ::
  "(string \<rightharpoonup> nat) \<Rightarrow> nat \<Rightarrow> FetchResponse list \<Rightarrow> FetchResponse list
     \<Rightarrow> (FetchResponse list \<times> FetchResponse list) exec option" where
  "fetch_merge_loop metrics i fm sm =
     (if i < length sm
      then (case metrics (FetchResponse.Name (sm ! i)) of
              Some j \<Rightarrow>
                (if length fm \<le> i then Some Panic
                 else if length sm \<le> j then Some Panic
                 else (case mergeFetchResponses (fm ! i) (sm ! j) of
                         None \<Rightarrow> None
                       | Some Panic \<Rightarrow> Some Panic
                       | Some (Ok (err, m1, m2)) \<Rightarrow>
                           fetch_merge_loop metrics (Suc i) (fm[i := m1]) (sm[j := m2])))
            | None \<Rightarrow> fetch_merge_loop metrics (Suc i) (fm @ [sm ! i]) sm)
      else Some (Ok (fm, sm)))"
  by pat_completeness auto
termination
  by (relation "measure (\<lambda>(metrics, i, fm, sm). length sm - i)") auto

declare fetch_merge_loop.simps [simp del]

text \<open>\<open>ServerFetchResponse.Merge\<close>: both responses after the call.\<close>

definition ServerFetchResponse_Merge ::
  "('s \<Rightarrow> 's \<Rightarrow> 's) \<Rightarrow> 's ServerFetchResponse \<Rightarrow> 's ServerFetchResponse
     \<Rightarrow> ('s ServerFetchResponse \<times> 's ServerFetchResponse) exec option" where
  "ServerFetchResponse_Merge statsMerge first0 second =
     (let first = first0\<lparr>ServerFetchResponse.Stats :=
                    statsMerge (ServerFetchResponse.Stats first0) (ServerFetchResponse.Stats second)\<rparr>
      in if ServerFetchResponse.Err second \<noteq> None then Some (Ok (first, second))
         else (case ServerFetchResponse.Response first of
                 None \<Rightarrow> Some Panic
               | Some fr \<Rightarrow>
                   (case ServerFetchResponse.Response second of
                      None \<Rightarrow> Some Panic
                    | Some sr \<Rightarrow>
                        (case fetch_merge_loop
                                (metricsIndex 0 (MultiFetchResponse.Metrics fr) Map.empty) 0
                                (MultiFetchResponse.Metrics fr) (MultiFetchResponse.Metrics sr) of
                           None \<Rightarrow> None
                         | Some Panic \<Rightarrow> Some Panic
                         | Some (Ok (fm, sm)) \<Rightarrow>
                             Some (Ok (first\<lparr>ServerFetchResponse.Response :=
                                                Some (fr\<lparr>MultiFetchResponse.Metrics := fm\<rparr>),
                                              ServerFetchResponse.Err :=
                                                (if ServerFetchResponse.Err first \<noteq> None
                                                    \<and> ServerFetchResponse.Err second = None
                                                 then None else ServerFetchResponse.Err first)\<rparr>,
                                       second\<lparr>ServerFetchResponse.Response :=
                                                Some (sr\<lparr>MultiFetchResponse.Metrics := sm\<rparr>)\<rparr>))))))"

section \<open>zipper/types/response.go: find responses\<close>

record GlobMatch =
  Path :: string
  IsLeaf :: bool

record GlobResponse =
  Name :: string
  Matches :: "GlobMatch list"

record MultiGlobResponse =
  Metrics :: "GlobResponse list"

record 's ServerFindResponse =
  Response :: "MultiGlobResponse option"
  Stats :: 's
  Err :: "error option"

text \<open>The first loop of \<open>ServerFindResponse.Merge\<close> fills \<open>seenMetrics\<close> and \<open>seenMatches\<close>;
  the key of a match is \<open>m.Name+"."+mm.Path\<close>.\<close>

fun seen_first ::
  "nat \<Rightarrow> GlobResponse list \<Rightarrow> (string \<rightharpoonup> nat) \<Rightarrow> string set
     \<Rightarrow> (string \<rightharpoonup> nat) \<times> string set" where
  "seen_first i [] seenMetrics seenMatches = (seenMetrics, seenMatches)"
| "seen_first i (m # ms) seenMetrics seenMatches =
     seen_first (Suc i) ms (seenMetrics(GlobResponse.Name m \<mapsto> i))
       (foldl (\<lambda>seen mm. insert (GlobResponse.Name m @ ''.'' @ Path mm) seen)
              seenMatches (Matches m))"

text \<open>The inner loop over \<open>m.Matches\<close> for a metric of \<open>second\<close> found at position \<open>i\<close>
  of \<open>first\<close>.\<close>

fun add_matches ::
  "nat \<Rightarrow> GlobMatch list \<Rightarrow> GlobResponse list \<Rightarrow> string set
     \<Rightarrow> (GlobResponse list \<times> string set) exec" where
  "add_matches i [] fm seenMatches = Ok (fm, seenMatches)"
| "add_matches i (mm # mms) fm seenMatches =
     (if length fm \<le> i then Panic
      else if GlobResponse.Name (fm ! i) @ ''.'' @ Path mm \<in> seenMatches
           then add_matches i mms fm seenMatches
           else add_matches i mms
                  (fm[i := (fm ! i)\<lparr>Matches := Matches (fm ! i) @ [mm]\<rparr>])
                  (insert (GlobResponse.Name (fm ! i) @ ''.'' @ Path mm) seenMatches))"

text \<open>The loop over \<open>second.Response.Metrics\<close>.\<close>

fun find_merge_loop ::
  "(string \<rightharpoonup> nat) \<Rightarrow> GlobResponse list \<Rightarrow> GlobResponse list \<Rightarrow> string set
     \<Rightarrow> (GlobResponse list \<times> string set) exec" where
  "find_merge_loop seenMetrics [] fm seenMatches = Ok (fm, seenMatches)"
| "find_merge_loop seenMetrics (m # ms) fm seenMatches =
     (case seenMetrics (GlobResponse.Name m) of
        None \<Rightarrow> find_merge_loop seenMetrics ms (fm @ [m]) seenMatches
      | Some i \<Rightarrow>
          (case add_matches i (Matches m) fm seenMatches of
             Panic \<Rightarrow> Panic
           | Ok (fm', seenMatches') \<Rightarrow> find_merge_loop seenMetrics ms fm' seenMatches'))"

text \<open>\<open>ServerFindResponse.Merge\<close>: the returned error and \<open>first\<close> after the call.\<close>

definition ServerFindResponse_Merge ::
  "('s \<Rightarrow> 's \<Rightarrow> 's) \<Rightarrow> 's ServerFindResponse \<Rightarrow> 's ServerFindResponse
     \<Rightarrow> (error option \<times> 's ServerFindResponse) exec" where
  "ServerFindResponse_Merge statsMerge first0 second =
     (let first = first0\<lparr>ServerFindResponse.Stats :=
                    statsMerge (ServerFindResponse.Stats first0) (ServerFindResponse.Stats second)\<rparr>
      in if ServerFindResponse.Err second \<noteq> None then Ok (ServerFindResponse.Err second, first)
         else (case ServerFindResponse.Response first of
                 None \<Rightarrow> Panic
               | Some fr \<Rightarrow>
                   (case ServerFindResponse.Response second of
                      None \<Rightarrow> Panic
                    | Some sr \<Rightarrow>
                        (case seen_first 0 (MultiGlobResponse.Metrics fr) Map.empty {} of
                           (seenMetrics, seenMatches) \<Rightarrow>
                             (case find_merge_loop seenMetrics (MultiGlobResponse.Metrics sr)
                                     (MultiGlobResponse.Metrics fr) seenMatches of
                                Panic \<Rightarrow> Panic
                              | Ok (fm, seen) \<Rightarrow>
                                  Ok (None,
                                      first\<lparr>ServerFindResponse.Response :=
                                               Some (fr\<lparr>MultiGlobResponse.Metrics := fm\<rparr>),
                                             ServerFindResponse.Err :=
                                               (if ServerFindResponse.Err first \<noteq> None
                                                   \<and> ServerFindResponse.Err second = None
                                                then None
                                                else ServerFindResponse.Err first)\<rparr>))))))"

text \<open>The (metric name, match path) pairs of a find response, in order.\<close>

definition match_pairs :: "MultiGlobResponse \<Rightarrow> (string \<times> string) list" where
  "match_pairs r =
     concat (map (\<lambda>m. map (\<lambda>mm. (GlobResponse.Name m, Path mm)) (Matches m))
                 (MultiGlobResponse.Metrics r))"

text \<open>The same pairs for a list of metrics, and the key under which \<open>seenMatches\<close> holds
  a pair.\<close>

definition metric_pairs :: "GlobResponse list \<Rightarrow> (string \<times> string) list" where
  "metric_pairs ms =
     concat (map (\<lambda>m. map (\<lambda>mm. (GlobResponse.Name m, Path mm)) (Matches m)) ms)"

definition match_key :: "string \<times> string \<Rightarrow> string" where
  "match_key np = fst np @ ''.'' @ snd np"

section \<open>The HTTP query helper: \<open>pickServer\<close>, \<open>doRequest\<close>, \<open>DoQuery\<close>\<close>

text \<open>
  \<open>HttpQuery\<close> with the fields the code computes with. Logger, limiter and HTTP client are
  collaborators: what they answer during one call of \<open>doRequest\<close> is an \<open>attempt_env\<close>, and
  the calls made to them are recorded in a trace of events.
\<close>

record HttpQuery =
  groupName :: string
  servers :: "string list"
  maxTries :: int
  counter :: "64 word"

record ServerResponse =
  Server :: string
  Response :: "8 word list"

text \<open>The answer of \<open>client.Do\<close>: the status code and what \<open>ioutil.ReadAll(resp.Body)\<close>
  yields.\<close>

record http_reply =
  StatusCode :: int
  ReadAll :: "error + 8 word list"

record attempt_env =
  url_Parse :: "string \<Rightarrow> error + string"
  http_NewRequest :: "string \<Rightarrow> error option"
  limiter_Enter :: "string \<Rightarrow> error option"
  client_Do :: "string \<Rightarrow> error + http_reply"

text \<open>
  \<open>Picked srv\<close>: \<open>pickServer\<close> returned \<open>srv\<close>. \<open>Enter key\<close>: \<open>limiter.Enter(ctx, key)\<close>
  returned nil, a slot is held. \<open>Leave key\<close>: \<open>limiter.Leave(ctx, key)\<close> was called.
  \<open>BodyClose\<close>: \<open>resp.Body.Close()\<close> was called.
\<close>

datatype event = Picked string | Enter string | Leave string | BodyClose

definition pickServer ::
  "HttpQuery \<Rightarrow> event list \<Rightarrow> (string \<times> HttpQuery \<times> event list) exec" where
  "pickServer c tr =
     (if length (HttpQuery.servers c) = 1
      then Ok (HttpQuery.servers c ! 0, c, tr @ [Picked (HttpQuery.servers c ! 0)])
      else if length (HttpQuery.servers c) = 0 then Panic
      else (let cnt = counter c + 1;
                idx = unat cnt mod length (HttpQuery.servers c);
                srv = HttpQuery.servers c ! idx
            in Ok (srv, c\<lparr>counter := cnt\<rparr>, tr @ [Picked srv])))"

text \<open>\<open>doRequest\<close>. The deferred calls run at every return after their \<open>defer\<close> statement,
  last deferred first.\<close>

definition doRequest ::
  "HttpQuery \<Rightarrow> attempt_env \<Rightarrow> string \<Rightarrow> event list
     \<Rightarrow> ((error + ServerResponse) \<times> HttpQuery \<times> event list) exec" where
  "doRequest c env uri tr =
     (case pickServer c tr of
        Panic \<Rightarrow> Panic
      | Ok (server, c1, tr1) \<Rightarrow>
          (case url_Parse env (server @ uri) of
             Inl e \<Rightarrow> Ok (Inl e, c1, tr1)
           | Inr u \<Rightarrow>
               (case http_NewRequest env u of
                  Some e \<Rightarrow> Ok (Inl e, c1, tr1)
                | None \<Rightarrow>
                    (case limiter_Enter env (HttpQuery.groupName c) of
                       Some e \<Rightarrow> Ok (Inl e, c1, tr1)
                     | None \<Rightarrow>
                         (case client_Do env u of
                            Inl e \<Rightarrow>
                              Ok (Inl e, c1,
                                  tr1 @ [Enter (HttpQuery.groupName c), Leave server])
                          | Inr resp \<Rightarrow>
                              (if StatusCode resp = 404
                               then Ok (Inl ErrNotFound, c1,
                                        tr1 @ [Enter (HttpQuery.groupName c), BodyClose,
                                               Leave server])
                               else if StatusCode resp \<noteq> 200
                               then Ok (Inl (ErrFailedToFetch (HttpQuery.groupName c)
                                               (StatusCode resp)), c1,
                                        tr1 @ [Enter (HttpQuery.groupName c), BodyClose,
                                               Leave server])
                               else (case ReadAll resp of
                                       Inl e \<Rightarrow>
                                         Ok (Inl e, c1,
                                             tr1 @ [Enter (HttpQuery.groupName c), BodyClose,
                                                    Leave server])
                                     | Inr body \<Rightarrow>
                                         Ok (Inr \<lparr>Server = server,
                                                  ServerResponse.Response = body\<rparr>, c1,
                                             tr1 @ [Enter (HttpQuery.groupName c), BodyClose,
                                                    Leave server]))))))))"

text \<open>
  The loop of \<open>DoQuery\<close>, \<open>for try := 0; try < maxTries; try++\<close>, with the variable \<open>err\<close>
  that survives the rounds. \<open>envs k\<close> is what the collaborators answer during round \<open>k\<close>.
  The result is the returned pair \<open>(res, err)\<close>, the query object and the trace.
\<close>

function DoQuery_loop ::
  "(nat \<Rightarrow> attempt_env) \<Rightarrow> string \<Rightarrow> int \<Rightarrow> int \<Rightarrow> error option \<Rightarrow> HttpQuery \<Rightarrow> event list
     \<Rightarrow> ((ServerResponse option \<times> error option) \<times> HttpQuery \<times> event list) exec" where
  "DoQuery_loop envs uri maxTries' try err c tr =
     (if try < maxTries'
      then (case doRequest c (envs (nat try)) uri tr of
              Panic \<Rightarrow> Panic
            | Ok (Inl e, c', tr') \<Rightarrow>
                (if e = ErrNotFound then Ok ((None, Some e), c', tr')
                 else DoQuery_loop envs uri maxTries' (try + 1) (Some e) c' tr')
            | Ok (Inr res, c', tr') \<Rightarrow> Ok ((Some res, None), c', tr'))
      else Ok ((None, err), c, tr))"
  by pat_completeness auto
termination
  by (relation "measure (\<lambda>(envs, uri, maxTries', try, err, c, tr). nat (maxTries' - try))") auto

declare DoQuery_loop.simps [simp del]

definition DoQuery ::
  "(nat \<Rightarrow> attempt_env) \<Rightarrow> string \<Rightarrow> HttpQuery \<Rightarrow> event list
     \<Rightarrow> ((ServerResponse option \<times> error option) \<times> HttpQuery \<times> event list) exec" where
  "DoQuery envs uri c tr =
     DoQuery_loop envs uri
       (if int (length (HttpQuery.servers c)) > maxTries c
        then int (length (HttpQuery.servers c)) else maxTries c)
       0 None c tr"

text \<open>
  Notions to speak about a run: the state in which round \<open>k\<close> starts when every earlier
  round returned (whatever it returned), what round \<open>k\<close> then returns, and the number of
  server picks in a trace.
\<close>

fun before_attempt ::
  "(nat \<Rightarrow> attempt_env) \<Rightarrow> string \<Rightarrow> nat \<Rightarrow> HttpQuery \<Rightarrow> event list
     \<Rightarrow> (HttpQuery \<times> event list) exec" where
  "before_attempt envs uri 0 c tr = Ok (c, tr)"
| "before_attempt envs uri (Suc k) c tr =
     (case before_attempt envs uri k c tr of
        Panic \<Rightarrow> Panic
      | Ok (c', tr') \<Rightarrow>
          (case doRequest c' (envs k) uri tr' of
             Panic \<Rightarrow> Panic
           | Ok (r, c'', tr'') \<Rightarrow> Ok (c'', tr'')))"

definition attempt ::
  "(nat \<Rightarrow> attempt_env) \<Rightarrow> string \<Rightarrow> nat \<Rightarrow> HttpQuery \<Rightarrow> event list
     \<Rightarrow> ((error + ServerResponse) \<times> HttpQuery \<times> event list) exec" where
  "attempt envs uri k c tr =
     (case before_attempt envs uri k c tr of
        Panic \<Rightarrow> Panic
      | Ok (c', tr') \<Rightarrow> doRequest c' (envs k) uri tr')"

fun is_pick :: "event \<Rightarrow> bool" where
  "is_pick (Picked s) = True"
| "is_pick e = False"

definition picks :: "event list \<Rightarrow> nat" where
  "picks tr = length (filter is_pick tr)"

section \<open>zipper/protocols/grpc/grpc_group.go\<close>

text \<open>
  Modelled from the spec: the statistics record \<open>types.Stats\<close>, whose declaration is not
  among the files at hand; the spec names the counters \<open>render_errors\<close>, \<open>find_errors\<close>,
  \<open>memory_usage_bytes\<close> and the lists \<open>servers\<close> and \<open>failed_servers\<close>.
\<close>

record Stats =
  Servers :: "string list"
  FailedServers :: "string list"
  RenderErrors :: int64
  FindErrors :: int64
  MemoryUsage :: int64

record ClientGRPCGroup =
  groupName :: string
  servers :: "string list"

record 'r ZipperInfoResponse =
  Info :: "string \<rightharpoonup> 'r"

text \<open>
  A unary RPC of the generated client returns a pointer and an error: \<open>(res, err)\<close>, with
  \<open>res\<close> nil (\<open>None\<close>) when the call failed. \<open>res.Size()\<close> is generated code of the
  protocol package and is called on the pointer, nil or not: it is the parameter \<open>Size\<close>.
  The five operations share their first lines:
  \<^verbatim>\<open>stats := &types.Stats{Servers: []string{c.Name()}}
  res, err := c.client.X(ctx, request)
  if err != nil {
      stats.RenderErrors++
      stats.FailedServers = stats.Servers
      stats.Servers = []string{}
  }
  stats.MemoryUsage = int64(res.Size())\<close>
\<close>

definition grpc_stats ::
  "('r option \<Rightarrow> int64 exec) \<Rightarrow> ClientGRPCGroup \<Rightarrow> 'r option \<Rightarrow> error option \<Rightarrow> Stats exec" where
  "grpc_stats Size c res err =
     (let stats0 = \<lparr>Servers = [ClientGRPCGroup.groupName c], FailedServers = [],
                     RenderErrors = 0, FindErrors = 0, MemoryUsage = 0\<rparr>;
          stats1 = (if err \<noteq> None
                    then stats0\<lparr>RenderErrors := RenderErrors stats0 + 1,
                                FailedServers := Servers stats0, Servers := []\<rparr>
                    else stats0)
      in case Size res of
           Panic \<Rightarrow> Panic
         | Ok n \<Rightarrow> Ok (stats1\<lparr>MemoryUsage := n\<rparr>))"

text \<open>\<open>Fetch\<close>, \<open>Find\<close>, \<open>List\<close> and \<open>Stats\<close> end with \<open>return res, stats, err\<close>.\<close>

definition grpc_Fetch ::
  "('r option \<Rightarrow> int64 exec) \<Rightarrow> ClientGRPCGroup \<Rightarrow> 'r option \<times> error option
     \<Rightarrow> ('r option \<times> Stats \<times> error option) exec" where
  "grpc_Fetch Size c rpc =
     (case grpc_stats Size c (fst rpc) (snd rpc) of
        Panic \<Rightarrow> Panic
      | Ok stats \<Rightarrow> Ok (fst rpc, stats, snd rpc))"

definition grpc_Find ::
  "('r option \<Rightarrow> int64 exec) \<Rightarrow> ClientGRPCGroup \<Rightarrow> 'r option \<times> error option
     \<Rightarrow> ('r option \<times> Stats \<times> error option) exec" where
  "grpc_Find Size c rpc =
     (case grpc_stats Size c (fst rpc) (snd rpc) of
        Panic \<Rightarrow> Panic
      | Ok stats \<Rightarrow> Ok (fst rpc, stats, snd rpc))"

definition grpc_List ::
  "('r option \<Rightarrow> int64 exec) \<Rightarrow> ClientGRPCGroup \<Rightarrow> 'r option \<times> error option
     \<Rightarrow> ('r option \<times> Stats \<times> error option) exec" where
  "grpc_List Size c rpc =
     (case grpc_stats Size c (fst rpc) (snd rpc) of
        Panic \<Rightarrow> Panic
      | Ok stats \<Rightarrow> Ok (fst rpc, stats, snd rpc))"

definition grpc_Stats ::
  "('r option \<Rightarrow> int64 exec) \<Rightarrow> ClientGRPCGroup \<Rightarrow> 'r option \<times> error option
     \<Rightarrow> ('r option \<times> Stats \<times> error option) exec" where
  "grpc_Stats Size c rpc =
     (case grpc_stats Size c (fst rpc) (snd rpc) of
        Panic \<Rightarrow> Panic
      | Ok stats \<Rightarrow> Ok (fst rpc, stats, snd rpc))"

text \<open>
  \<open>Info\<close> goes on to build its own response from the value behind the pointer:
  \<^verbatim>\<open>r := &protov3.ZipperInfoResponse{
      Info: map[string]protov3.MultiMetricsInfoResponse{ c.Name(): *res } }
  return r, stats, err\<close>
\<close>

definition grpc_Info ::
  "('r option \<Rightarrow> int64 exec) \<Rightarrow> ClientGRPCGroup \<Rightarrow> 'r option \<times> error option
     \<Rightarrow> ('r ZipperInfoResponse \<times> Stats \<times> error option) exec" where
  "grpc_Info Size c rpc =
     (case grpc_stats Size c (fst rpc) (snd rpc) of
        Panic \<Rightarrow> Panic
      | Ok stats \<Rightarrow>
          (case fst rpc of
             None \<Rightarrow> Panic
           | Some r \<Rightarrow> Ok (\<lparr>Info = [ClientGRPCGroup.groupName c \<mapsto> r]\<rparr>, stats, snd rpc)))"

section \<open>Concrete inputs\<close>

text \<open>
  The pair of the repository's test "simple 2": a 120-second series of five samples
  \<open>1, 3, 5, 7, 9\<close> and a 60-second series of ten samples \<open>1, \<dots>, 9, 0\<close> (the samples are
  written as the bits of these floats), and what the test expects in \<open>m1\<close> afterwards.
\<close>

definition simple2_m1 :: FetchResponse where
  "simple2_m1 = \<lparr>FetchResponse.Name = ''foo'', StartTime = 0, StopTime = 600, StepTime = 120,
     ConsolidationFunc = ''avg'', XFilesFactor = 0,
     Values = [0x3FF0000000000000, 0x4008000000000000, 0x4014000000000000,
               0x401C000000000000, 0x4022000000000000],
     AppliedFunctions = []\<rparr>"

definition simple2_m2 :: FetchResponse where
  "simple2_m2 = \<lparr>FetchResponse.Name = ''foo'', StartTime = 60, StopTime = 660, StepTime = 60,
     ConsolidationFunc = ''avg'', XFilesFactor = 0,
     Values = [0x3FF0000000000000, 0x4000000000000000, 0x4008000000000000,
               0x4010000000000000, 0x4014000000000000, 0x4018000000000000,
               0x401C000000000000, 0x4020000000000000, 0x4022000000000000, 0],
     AppliedFunctions = []\<rparr>"

definition simple2_resampled :: FetchResponse where
  "simple2_resampled = simple2_m2\<lparr>Values :=
     [0x3FF0000000000000, 0x3FF0000000000000, 0x4008000000000000, 0x4008000000000000,
      0x4014000000000000, 0x4014000000000000, 0x401C000000000000, 0x401C000000000000,
      0x4022000000000000, 0x4022000000000000]\<rparr>"

text \<open>
  The other four pairs of the repository's test \<open>TestMergeValues\<close> ("simple 1", "fill the
  gaps simple", "fill the gaps 1", "fill end of metric"), with the result each expects
  in \<open>m1\<close>.
\<close>

definition test_simple1_m1 :: FetchResponse where
  "test_simple1_m1 = \<lparr>FetchResponse.Name = ''foo'', StartTime = 60, StopTime = 660, StepTime = 60,
     ConsolidationFunc = ''avg'', XFilesFactor = 0,
     Values = [0x3FF0000000000000, 0x4000000000000000, 0x4008000000000000, 0x4010000000000000,
               0x4014000000000000, 0x4018000000000000, 0x401C000000000000, 0x4020000000000000,
               0x4022000000000000, 0x0000000000000000],
     AppliedFunctions = []\<rparr>"

definition test_simple1_m2 :: FetchResponse where
  "test_simple1_m2 = \<lparr>FetchResponse.Name = ''foo'', StartTime = 0, StopTime = 600, StepTime = 120,
     ConsolidationFunc = ''avg'', XFilesFactor = 0,
     Values = [0x3FF0000000000000, 0x4008000000000000, 0x4014000000000000, 0x401C000000000000,
               0x4022000000000000],
     AppliedFunctions = []\<rparr>"

definition test_simple1_expected :: FetchResponse where
  "test_simple1_expected = \<lparr>FetchResponse.Name = ''foo'', StartTime = 60, StopTime = 660, StepTime = 60,
     ConsolidationFunc = ''avg'', XFilesFactor = 0,
     Values = [0x3FF0000000000000, 0x4000000000000000, 0x4008000000000000, 0x4010000000000000,
               0x4014000000000000, 0x4018000000000000, 0x401C000000000000, 0x4020000000000000,
               0x4022000000000000, 0x0000000000000000],
     AppliedFunctions = []\<rparr>"

definition test_gaps_simple_m1 :: FetchResponse where
  "test_gaps_simple_m1 = \<lparr>FetchResponse.Name = ''foo'', StartTime = 60, StopTime = 1260, StepTime = 60,
     ConsolidationFunc = ''avg'', XFilesFactor = 0,
     Values = [0x3FF0000000000000, 0x4000000000000000, 0x4008000000000000, 0x4010000000000000,
               NaN, 0x4018000000000000, 0x401C000000000000, 0x4020000000000000,
               0x4022000000000000, NaN, 0x4026000000000000, 0x4028000000000000,
               0x402A000000000000, 0x402C000000000000, 0x402E000000000000, 0x4030000000000000,
               NaN, NaN, NaN, 0x4034000000000000],
     AppliedFunctions = []\<rparr>"

definition test_gaps_simple_m2 :: FetchResponse where
  "test_gaps_simple_m2 = \<lparr>FetchResponse.Name = ''foo'', StartTime = 60, StopTime = 1260, StepTime = 60,
     ConsolidationFunc = ''avg'', XFilesFactor = 0,
     Values = [0x3FF0000000000000, 0x4000000000000000, NaN, NaN, 0x4014000000000000,
               0x4018000000000000, 0x401C000000000000, 0x4020000000000000, 0x4022000000000000,
               NaN, 0x4026000000000000, 0x4028000000000000, NaN, 0x402C000000000000,
               0x402E000000000000, 0x4030000000000000, 0x4031000000000000, 0x4032000000000000,
               NaN, 0x4034000000000000],
     AppliedFunctions = []\<rparr>"

definition test_gaps_simple_expected :: FetchResponse where
  "test_gaps_simple_expected = \<lparr>FetchResponse.Name = ''foo'', StartTime = 60, StopTime = 1260, StepTime = 60,
     ConsolidationFunc = ''avg'', XFilesFactor = 0,
     Values = [0x3FF0000000000000, 0x4000000000000000, 0x4008000000000000, 0x4010000000000000,
               0x4014000000000000, 0x4018000000000000, 0x401C000000000000, 0x4020000000000000,
               0x4022000000000000, NaN, 0x4026000000000000, 0x4028000000000000,
               0x402A000000000000, 0x402C000000000000, 0x402E000000000000, 0x4030000000000000,
               0x4031000000000000, 0x4032000000000000, NaN, 0x4034000000000000],
     AppliedFunctions = []\<rparr>"

definition test_gaps1_m1 :: FetchResponse where
  "test_gaps1_m1 = \<lparr>FetchResponse.Name = ''foo'', StartTime = 0, StopTime = 1200, StepTime = 120,
     ConsolidationFunc = ''avg'', XFilesFactor = 0,
     Values = [0x3FF0000000000000, NaN, 0x4014000000000000, 0x401C000000000000,
               0x4022000000000000, 0x4026000000000000, 0x402A000000000000, 0x402E000000000000,
               0x4031000000000000, 0x4033000000000000],
     AppliedFunctions = []\<rparr>"

definition test_gaps1_m2 :: FetchResponse where
  "test_gaps1_m2 = \<lparr>FetchResponse.Name = ''foo'', StartTime = 60, StopTime = 1260, StepTime = 60,
     ConsolidationFunc = ''avg'', XFilesFactor = 0,
     Values = [0x3FF0000000000000, 0x4000000000000000, NaN, NaN, 0x4014000000000000,
               0x4018000000000000, 0x401C000000000000, 0x4020000000000000, 0x4022000000000000,
               NaN, 0x4026000000000000, 0x4028000000000000, NaN, 0x402C000000000000,
               0x402E000000000000, 0x4030000000000000, 0x4031000000000000, 0x4032000000000000,
               NaN, 0x4034000000000000],
     AppliedFunctions = []\<rparr>"

definition test_gaps1_expected :: FetchResponse where
  "test_gaps1_expected = \<lparr>FetchResponse.Name = ''foo'', StartTime = 60, StopTime = 1260, StepTime = 60,
     ConsolidationFunc = ''avg'', XFilesFactor = 0,
     Values = [0x3FF0000000000000, 0x4000000000000000, NaN, NaN, 0x4014000000000000,
               0x4018000000000000, 0x401C000000000000, 0x4020000000000000, 0x4022000000000000,
               0x4022000000000000, 0x4026000000000000, 0x4028000000000000, 0x402A000000000000,
               0x402C000000000000, 0x402E000000000000, 0x4030000000000000, 0x4031000000000000,
               0x4032000000000000, 0x4033000000000000, 0x4034000000000000],
     AppliedFunctions = []\<rparr>"

definition test_fill_end_m1 :: FetchResponse where
  "test_fill_end_m1 = \<lparr>FetchResponse.Name = ''foo'', StartTime = 60, StopTime = 1200, StepTime = 60,
     ConsolidationFunc = ''avg'', XFilesFactor = 0,
     Values = [0x3FF0000000000000, 0x4000000000000000, 0x4008000000000000, 0x4010000000000000,
               NaN, 0x4018000000000000, 0x401C000000000000, 0x4020000000000000,
               0x4022000000000000, NaN, 0x4026000000000000, 0x4028000000000000,
               0x402A000000000000, 0x402C000000000000, 0x402E000000000000, 0x4030000000000000,
               NaN, NaN, NaN],
     AppliedFunctions = []\<rparr>"

definition test_fill_end_m2 :: FetchResponse where
  "test_fill_end_m2 = \<lparr>FetchResponse.Name = ''foo'', StartTime = 60, StopTime = 1260, StepTime = 60,
     ConsolidationFunc = ''avg'', XFilesFactor = 0,
     Values = [0x3FF0000000000000, 0x4000000000000000, NaN, NaN, 0x4014000000000000,
               0x4018000000000000, 0x401C000000000000, 0x4020000000000000, 0x4022000000000000,
               NaN, 0x4026000000000000, 0x4028000000000000, NaN, 0x402C000000000000,
               0x402E000000000000, 0x4030000000000000, 0x4031000000000000, 0x4032000000000000,
               NaN, 0x4034000000000000],
     AppliedFunctions = []\<rparr>"

definition test_fill_end_expected :: FetchResponse where
  "test_fill_end_expected = \<lparr>FetchResponse.Name = ''foo'', StartTime = 60, StopTime = 1260, StepTime = 60,
     ConsolidationFunc = ''avg'', XFilesFactor = 0,
     Values = [0x3FF0000000000000, 0x4000000000000000, 0x4008000000000000, 0x4010000000000000,
               0x4014000000000000, 0x4018000000000000, 0x401C000000000000, 0x4020000000000000,
               0x4022000000000000, NaN, 0x4026000000000000, 0x4028000000000000,
               0x402A000000000000, 0x402C000000000000, 0x402E000000000000, 0x4030000000000000,
               0x4031000000000000, 0x4032000000000000, NaN, 0x4034000000000000],
     AppliedFunctions = []\<rparr>"

text \<open>The second metric of "fill the gaps 1" after the merge: the 120-second series in
  second place, resampled onto the 60-second grid.\<close>

definition test_gaps1_second :: FetchResponse where
  "test_gaps1_second = test_gaps1_m1\<lparr>Values :=
       [0x3FF0000000000000, 0x3FF0000000000000, NaN, NaN, 0x4014000000000000,
        0x4014000000000000, 0x401C000000000000, 0x401C000000000000, 0x4022000000000000,
        0x4022000000000000, 0x4026000000000000, 0x4026000000000000, 0x402A000000000000,
        0x402A000000000000, 0x402E000000000000, 0x402E000000000000, 0x4031000000000000,
        0x4031000000000000, 0x4033000000000000, 0x4033000000000000],
     StepTime := 60, StartTime := 60, StopTime := 1260\<rparr>"

text \<open>Two series on one grid, \<open>1, NaN, 3\<close> and \<open>NaN, 2, NaN\<close>.\<close>

definition gaps_a :: FetchResponse where
  "gaps_a = \<lparr>FetchResponse.Name = ''foo'', StartTime = 0, StopTime = 180, StepTime = 60,
     ConsolidationFunc = ''avg'', XFilesFactor = 0,
     Values = [0x3FF0000000000000, NaN, 0x4008000000000000], AppliedFunctions = []\<rparr>"

definition gaps_b :: FetchResponse where
  "gaps_b = gaps_a\<lparr>Values := [NaN, 0x4000000000000000, NaN]\<rparr>"

text \<open>The same grid shifted by one step: equal lengths, different start times.\<close>

definition shifted_b :: FetchResponse where
  "shifted_b = gaps_b\<lparr>StartTime := 60, StopTime := 240\<rparr>"

text \<open>A constant metric \<open>7\<close> over \<open>[0, 120)\<close>, once at step 120 and once at step 60.\<close>

definition const_lo :: FetchResponse where
  "const_lo = \<lparr>FetchResponse.Name = ''foo'', StartTime = 0, StopTime = 120, StepTime = 120,
     ConsolidationFunc = ''avg'', XFilesFactor = 0,
     Values = [0x401C000000000000], AppliedFunctions = []\<rparr>"

definition const_hi :: FetchResponse where
  "const_hi = const_lo\<lparr>StepTime := 60, Values := [0x401C000000000000, 0x401C000000000000]\<rparr>"

text \<open>A series \<open>1, 2, NaN\<close> and a shorter one \<open>1, 2\<close> with the same start and step.\<close>

definition tail_a :: FetchResponse where
  "tail_a = \<lparr>FetchResponse.Name = ''foo'', StartTime = 0, StopTime = 180, StepTime = 60,
     ConsolidationFunc = ''avg'', XFilesFactor = 0,
     Values = [0x3FF0000000000000, 0x4000000000000000, NaN], AppliedFunctions = []\<rparr>"

definition tail_b :: FetchResponse where
  "tail_b = tail_a\<lparr>StopTime := 120, Values := [0x3FF0000000000000, 0x4000000000000000]\<rparr>"

text \<open>Responses built from lists of metrics, with no error and no statistics.\<close>

definition series :: "string \<Rightarrow> float64 list \<Rightarrow> FetchResponse" where
  "series name vs = \<lparr>FetchResponse.Name = name, StartTime = 0, StopTime = 60, StepTime = 60,
     ConsolidationFunc = ''avg'', XFilesFactor = 0, Values = vs, AppliedFunctions = []\<rparr>"

definition no_stats :: "unit \<Rightarrow> unit \<Rightarrow> unit" where
  "no_stats s t = s"

definition fetch_of :: "FetchResponse list \<Rightarrow> unit ServerFetchResponse" where
  "fetch_of ms = \<lparr>ServerFetchResponse.Response = Some \<lparr>MultiFetchResponse.Metrics = ms\<rparr>,
     ServerFetchResponse.Stats = (), ServerFetchResponse.Err = None\<rparr>"

definition glob :: "string \<Rightarrow> string list \<Rightarrow> GlobResponse" where
  "glob name paths = \<lparr>GlobResponse.Name = name,
     Matches = map (\<lambda>p. \<lparr>Path = p, IsLeaf = True\<rparr>) paths\<rparr>"

definition find_of :: "GlobResponse list \<Rightarrow> unit ServerFindResponse" where
  "find_of ms = \<lparr>ServerFindResponse.Response = Some \<lparr>MultiGlobResponse.Metrics = ms\<rparr>,
     ServerFindResponse.Stats = (), ServerFindResponse.Err = None\<rparr>"

text \<open>
  Two groups, one with a single server and three tries, one with two servers and a single
  configured try; backends that answer every request with one status code and an empty
  body; a caller whose context is already cancelled, so that the limiter refuses the slot.
\<close>

definition query1 :: HttpQuery where
  "query1 = \<lparr>HttpQuery.groupName = ''group1'', HttpQuery.servers = [''http://a:8080''],
              maxTries = 3, counter = 0\<rparr>"

definition query2 :: HttpQuery where
  "query2 = \<lparr>HttpQuery.groupName = ''group1'',
              HttpQuery.servers = [''http://a:8080'', ''http://b:8080''],
              maxTries = 1, counter = 0\<rparr>"

definition env_status :: "int \<Rightarrow> attempt_env" where
  "env_status code = \<lparr>url_Parse = Inr, http_NewRequest = (\<lambda>u. None),
     limiter_Enter = (\<lambda>key. None),
     client_Do = (\<lambda>u. Inr \<lparr>StatusCode = code, ReadAll = Inr []\<rparr>)\<rparr>"

definition env_cancelled :: attempt_env where
  "env_cancelled = \<lparr>url_Parse = Inr, http_NewRequest = (\<lambda>u. None),
     limiter_Enter = (\<lambda>key. Some ContextCanceled),
     client_Do = (\<lambda>u. Inl ContextCanceled)\<rparr>"

definition envs_all_503 :: "nat \<Rightarrow> attempt_env" where
  "envs_all_503 k = env_status 503"

definition envs_all_cancelled :: "nat \<Rightarrow> attempt_env" where
  "envs_all_cancelled k = env_cancelled"

definition envs_503_then_404 :: "nat \<Rightarrow> attempt_env" where
  "envs_503_then_404 k = (if k = 0 then env_status 503 else env_status 404)"

definition envs_cancelled_then_200 :: "nat \<Rightarrow> attempt_env" where
  "envs_cancelled_then_200 k = (if k = 0 then env_cancelled else env_status 200)"


section \<open>Properties of the fetch pair-merge\<close>

lemma IsNaN_NaN: "IsNaN NaN"
  by (simp add: IsNaN_def NaN_def)

lemma pad_loop_eq:
  "pad_loop i v1 v2 =
     v2 @ replicate (nat ((int (length v1) - int (length v2) - int i + 1) div 2)) NaN"
proof (induction i v1 v2 rule: pad_loop.induct)
  case (1 i v1 v2)
  show ?case
  proof (cases "int i < int (length v1) - int (length v2)")
    case False
    then have "nat ((int (length v1) - int (length v2) - int i + 1) div 2) = 0" by simp
    with False show ?thesis by (subst pad_loop.simps) simp
  next
    case True
    have "nat ((int (length v1) - int (length v2) - int i + 1) div 2)
            = Suc (nat ((int (length v1) - int (length (v2 @ [NaN])) - int (Suc i) + 1) div 2))"
      using True by simp
    with True "1.IH" show ?thesis
      by (subst pad_loop.simps) (simp add: replicate_app_Cons_same)
  qed
qed

lemma gap_fill_length: "gap_fill i v1 v2 = Ok r \<Longrightarrow> length r = length v1"
proof (induction i v1 v2 rule: gap_fill.induct)
  case (1 i v1 v2)
  show ?case
  proof (cases "i < length v1")
    case True
    with "1.prems" "1.IH" show ?thesis
      by (subst (asm) gap_fill.simps) (auto split: if_splits)
  next
    case False
    with "1.prems" show ?thesis by (subst (asm) gap_fill.simps) simp
  qed
qed

text \<open>What the gap-filling loop leaves at each position, from round \<open>i\<close> on.\<close>

lemma gap_fill_nth:
  "gap_fill i v1 v2 = Ok r \<Longrightarrow> k < length v1 \<Longrightarrow>
     (k < i \<longrightarrow> r ! k = v1 ! k) \<and>
     (i \<le> k \<longrightarrow>
        (\<not> IsNaN (v1 ! k) \<longrightarrow> r ! k = v1 ! k) \<and>
        (IsNaN (v1 ! k) \<longrightarrow> k < length v2 \<and>
           (\<not> IsNaN (v2 ! k) \<longrightarrow> r ! k = v2 ! k) \<and>
           (IsNaN (v2 ! k) \<longrightarrow> r ! k = v1 ! k)))"
proof (induction i v1 v2 rule: gap_fill.induct)
  case (1 i v1 v2)
  show ?case
  proof (cases "i < length v1")
    case False
    with "1.prems" show ?thesis by (subst (asm) gap_fill.simps) simp
  next
    case True
    note lt = True
    show ?thesis
    proof (cases "IsNaN (v1 ! i)")
      case False
      with lt "1.prems" have "gap_fill (Suc i) v1 v2 = Ok r"
        by (subst (asm) gap_fill.simps) simp
      from "1.IH"(1)[OF lt False this "1.prems"(2)] False show ?thesis
        by (cases "k = i") (auto simp: less_Suc_eq Suc_le_eq)
    next
      case True
      note nan = True
      from lt nan "1.prems" have inr: "i < length v2"
        by (subst (asm) gap_fill.simps) (auto split: if_splits)
      show ?thesis
      proof (cases "IsNaN (v2 ! i)")
        case True
        with lt nan inr "1.prems" have "gap_fill (Suc i) v1 v2 = Ok r"
          by (subst (asm) gap_fill.simps) simp
        from "1.IH"(3)[OF lt _ _ _ this "1.prems"(2)] nan inr True show ?thesis
          by (cases "k = i") (auto simp: less_Suc_eq Suc_le_eq)
      next
        case False
        with lt nan inr "1.prems" have "gap_fill (Suc i) (v1[i := v2 ! i]) v2 = Ok r"
          by (subst (asm) gap_fill.simps) simp
        from "1.IH"(2)[OF lt _ _ _ this] "1.prems"(2) nan inr False lt show ?thesis
          by (cases "k = i") (auto simp: less_Suc_eq Suc_le_eq nth_list_update)
      qed
    qed
  qed
qed

text \<open>Length equalization never writes to the samples of its first metric, apart from
  the swap.\<close>

lemma equalize_Values_first:
  assumes "equalizeLengths a b = Some (Ok (e, m1, m2))"
  shows "Values m1 = (if length (Values a) < length (Values b) then Values b else Values a)"
  using assms
  by (auto simp: equalizeLengths_def swapFetchResponses_def Let_def
           split: if_splits option.splits exec.splits)

text \<open>Padding and resampling both leave equal start times, so start times that differ at
  the label \<open>out\<close> come from the branch that touched nothing.\<close>

lemma equalize_start_differs:
  assumes "equalizeLengths a b = Some (Ok (None, m1, m2))"
    and "StartTime m1 \<noteq> StartTime m2"
  shows "m1 = a \<and> m2 = b"
  using assms
  by (auto simp: equalizeLengths_def swapFetchResponses_def Let_def
           split: if_splits option.splits exec.splits)

lemma merge_ok_unfold:
  assumes "mergeFetchResponses a b = Some (Ok (None, a', b'))"
  obtains m1 vs where "equalizeLengths a b = Some (Ok (None, m1, b'))"
    and "StartTime m1 = StartTime b'"
    and "gap_fill 0 (Values m1) (Values b') = Ok vs" and "a' = m1\<lparr>Values := vs\<rparr>"
  using assms
  by (auto simp: mergeFetchResponses_def split: option.splits exec.splits if_splits)

text \<open>What length equalization does to a pair of unequal lengths when control reaches the
  label \<open>out\<close>.\<close>

lemma equalize_unequal:
  assumes ne: "length (Values a) \<noteq> length (Values b)"
    and eq: "equalizeLengths a b = Some (Ok (None, x, b'))"
    and sw: "(m1, m2) = (if length (Values a) < length (Values b)
                         then swapFetchResponses a b else (a, b))"
  shows "x = m1 \<and> length (Values m2) < length (Values m1) \<and>
         ((sint (StepTime m2) \<le> sint (StepTime m1) \<and> StartTime m1 = StartTime m2 \<and>
           b' = m2\<lparr>Values := pad_loop 0 (Values m1) (Values m2)\<rparr>)
          \<or> (sint (StepTime m1) < sint (StepTime m2) \<and>
              (\<exists>vs. resample_loop (StartTime m1) (StopTime m1) (StepTime m1) (StepTime m2)
                      (Values m2) (StartTime m1) [] = Some (Ok vs) \<and>
                    b' = m2\<lparr>Values := vs, StepTime := StepTime m1,
                            StartTime := StartTime m1, StopTime := StopTime m1\<rparr>)))"
proof -
  have lens: "length (Values m2) < length (Values m1)"
    using ne sw by (auto simp: swapFetchResponses_def split: if_splits)
  from sw[symmetric] ne eq show ?thesis
    unfolding equalizeLengths_def
    by (auto simp: Let_def lens split: if_splits option.splits exec.splits)
qed

text \<open>What the resampling loop returns, when it returns: one sample of \<open>vals2\<close> per round,
  each read at an index in range.\<close>

lemma resample_loop_spec:
  assumes "resample_loop start1 stop1 step1 step2 vals2 ts values = Some y"
  shows "\<forall>vs. y = Ok vs \<longrightarrow>
           (\<exists>k. vs = values @ map (\<lambda>m. vals2 ! nat (resample_index start1 step1 step2 ts m)) [0..<k]
              \<and> (\<forall>m<k. 0 \<le> resample_index start1 step1 step2 ts m
                         \<and> resample_index start1 step1 step2 ts m < int (length vals2)))"
proof (rule resample_loop.raw_induct[where P = "\<lambda>start1 stop1 step1 step2 vals2 ts values y.
    \<forall>vs. y = Ok vs \<longrightarrow>
           (\<exists>k. vs = values @ map (\<lambda>m. vals2 ! nat (resample_index start1 step1 step2 ts m)) [0..<k]
              \<and> (\<forall>m<k. 0 \<le> resample_index start1 step1 step2 ts m
                         \<and> resample_index start1 step1 step2 ts m < int (length vals2)))",
    OF _ assms], goal_cases)
  case (1 rl start1 stop1 step1 step2 vals2 ts "values" y)
  show ?case
  proof (intro allI impI)
    fix vs assume y: "y = Ok vs"
    let ?ix = "resample_index start1 step1 step2"
    show "\<exists>k. vs = values @ map (\<lambda>m. vals2 ! nat (?ix ts m)) [0..<k]
              \<and> (\<forall>m<k. 0 \<le> ?ix ts m \<and> ?ix ts m < int (length vals2))"
    proof (cases "sint ts < sint stop1")
      case False
      with "1"(2) y have "vs = values" by simp
      then show ?thesis by (intro exI[of _ 0]) simp
    next
      case True
      have i0: "?ix ts 0 = sint (go_quo (ts - start1) step2)"
        by (simp add: resample_index_def)
      from True "1"(2) y have nz: "step2 \<noteq> 0"
        and lo: "0 \<le> ?ix ts 0" and hi: "?ix ts 0 < int (length vals2)"
        and rec: "rl start1 stop1 step1 step2 vals2 (ts + step1)
                    (values @ [vals2 ! nat (?ix ts 0)]) = Some (Ok vs)"
        by (auto simp: i0 split: if_splits)
      from "1"(1)[OF rec] obtain k where
        vs: "vs = (values @ [vals2 ! nat (?ix ts 0)])
                    @ map (\<lambda>m. vals2 ! nat (?ix (ts + step1) m)) [0..<k]"
        and rng: "\<forall>m<k. 0 \<le> ?ix (ts + step1) m \<and> ?ix (ts + step1) m < int (length vals2)"
        by blast
      have shift: "?ix (ts + step1) m = ?ix ts (Suc m)" for m
        by (simp add: resample_index_def algebra_simps)
      have "map (\<lambda>m. vals2 ! nat (?ix ts m)) [0..<Suc k]
              = vals2 ! nat (?ix ts 0) # map (\<lambda>m. vals2 ! nat (?ix ts (Suc m))) [0..<k]"
        by (simp add: upt_conv_Cons map_Suc_upt[symmetric] del: upt_Suc)
      with vs have "vs = values @ map (\<lambda>m. vals2 ! nat (?ix ts m)) [0..<Suc k]"
        by (simp add: shift)
      moreover have "\<forall>m<Suc k. 0 \<le> ?ix ts m \<and> ?ix ts m < int (length vals2)"
      proof (intro allI impI)
        fix m assume "m < Suc k"
        show "0 \<le> ?ix ts m \<and> ?ix ts m < int (length vals2)"
        proof (cases m)
          case 0
          with lo hi show ?thesis by simp
        next
          case (Suc m')
          with \<open>m < Suc k\<close> have "m' < k" by simp
          with rng have "0 \<le> ?ix (ts + step1) m' \<and> ?ix (ts + step1) m' < int (length vals2)"
            by blast
          with shift[of m'] Suc show ?thesis by simp
        qed
      qed
      ultimately show ?thesis by blast
    qed
  qed
qed

lemma resample_loop_nth:
  assumes "resample_loop start1 stop1 step1 step2 vals2 start1 [] = Some (Ok vs)"
    and "i < length vs"
  shows "0 \<le> sint (go_quo (of_nat i * step1) step2)
         \<and> sint (go_quo (of_nat i * step1) step2) < int (length vals2)
         \<and> vs ! i = vals2 ! nat (sint (go_quo (of_nat i * step1) step2))"
proof -
  from resample_loop_spec[OF assms(1)] obtain k where
    vs: "vs = map (\<lambda>m. vals2 ! nat (resample_index start1 step1 step2 start1 m)) [0..<k]"
    and rng: "\<forall>m<k. 0 \<le> resample_index start1 step1 step2 start1 m
                   \<and> resample_index start1 step1 step2 start1 m < int (length vals2)"
    by auto
  from vs assms(2) have ik: "i < k" by simp
  have ix: "resample_index start1 step1 step2 start1 i = sint (go_quo (of_nat i * step1) step2)"
    by (simp add: resample_index_def)
  from vs ik have "vs ! i = vals2 ! nat (resample_index start1 step1 step2 start1 i)" by simp
  moreover from rng ik have "0 \<le> resample_index start1 step1 step2 start1 i
      \<and> resample_index start1 step1 step2 start1 i < int (length vals2)" by blast
  ultimately show ?thesis by (simp add: ix)
qed

text \<open>After length equalization the second metric holds, at every index it has, the
  grid-aligned sample of the shorter input.\<close>

lemma swap_fields:
  assumes "(m1, m2) = (if length (Values a) < length (Values b)
                       then swapFetchResponses a b else (a, b))"
    and "(lg, sh) = (if length (Values a) < length (Values b) then (b, a) else (a, b))"
  shows "Values m1 = Values lg" "Values m2 = Values sh"
    "StepTime m1 = StepTime lg" "StepTime m2 = StepTime sh"
  using assms by (auto simp: swapFetchResponses_def split: if_splits)

lemma aligned_second:
  assumes eq: "equalizeLengths a b = Some (Ok (None, x, b'))"
    and ls: "(lg, sh) = (if length (Values a) < length (Values b) then (b, a) else (a, b))"
    and i: "i < length (Values b')"
  shows "grid_aligned lg sh i = Some (Values b' ! i)"
proof (cases "length (Values a) = length (Values b)")
  case True
  with eq have "b' = b" by (simp add: equalizeLengths_def)
  moreover from True ls have "lg = a" "sh = b" by simp_all
  ultimately show ?thesis using True i by (simp add: grid_aligned_def)
next
  case False
  obtain m1 m2 where sw: "(m1, m2) = (if length (Values a) < length (Values b)
                       then swapFetchResponses a b else (a, b))"
    by (cases "if length (Values a) < length (Values b)
                       then swapFetchResponses a b else (a, b)") auto
  note f = swap_fields[OF sw ls]
  from equalize_unequal[OF False eq sw] have lens: "length (Values m2) < length (Values m1)"
    and cases: "(sint (StepTime m2) \<le> sint (StepTime m1) \<and> StartTime m1 = StartTime m2 \<and>
           b' = m2\<lparr>Values := pad_loop 0 (Values m1) (Values m2)\<rparr>)
          \<or> (sint (StepTime m1) < sint (StepTime m2) \<and>
              (\<exists>vs. resample_loop (StartTime m1) (StopTime m1) (StepTime m1) (StepTime m2)
                      (Values m2) (StartTime m1) [] = Some (Ok vs) \<and>
                    b' = m2\<lparr>Values := vs, StepTime := StepTime m1,
                            StartTime := StartTime m1, StopTime := StopTime m1\<rparr>))"
    by simp_all
  from lens f have ne: "length (Values sh) \<noteq> length (Values lg)" by simp
  from cases show ?thesis
  proof
    assume p: "sint (StepTime m2) \<le> sint (StepTime m1) \<and> StartTime m1 = StartTime m2 \<and>
           b' = m2\<lparr>Values := pad_loop 0 (Values m1) (Values m2)\<rparr>"
    then have "Values b' = Values sh @ replicate
        (nat ((int (length (Values m1)) - int (length (Values m2)) - int 0 + 1) div 2)) NaN"
      using pad_loop_eq[of 0 "Values m1" "Values m2"] f by simp
    with i have "Values b' ! i = (if i < length (Values sh) then Values sh ! i else NaN)"
      by (simp add: nth_append)
    moreover from p f have "\<not> sint (StepTime lg) < sint (StepTime sh)" by simp
    ultimately show ?thesis using ne by (simp add: grid_aligned_def)
  next
    assume r: "sint (StepTime m1) < sint (StepTime m2) \<and>
              (\<exists>vs. resample_loop (StartTime m1) (StopTime m1) (StepTime m1) (StepTime m2)
                      (Values m2) (StartTime m1) [] = Some (Ok vs) \<and>
                    b' = m2\<lparr>Values := vs, StepTime := StepTime m1,
                            StartTime := StartTime m1, StopTime := StopTime m1\<rparr>)"
    then obtain vs where rl: "resample_loop (StartTime m1) (StopTime m1) (StepTime m1)
        (StepTime m2) (Values m2) (StartTime m1) [] = Some (Ok vs)"
      and b': "Values b' = vs" by auto
    from i b' have "i < length vs" by simp
    from resample_loop_nth[OF rl this] f b'
    have "0 \<le> sint (go_quo (of_nat i * StepTime lg) (StepTime sh))
         \<and> sint (go_quo (of_nat i * StepTime lg) (StepTime sh)) < int (length (Values sh))
         \<and> Values b' ! i = Values sh ! nat (sint (go_quo (of_nat i * StepTime lg) (StepTime sh)))"
      by simp
    moreover from r f have "sint (StepTime lg) < sint (StepTime sh)" by simp
    ultimately show ?thesis using ne by (simp add: grid_aligned_def)
  qed
qed

text \<open>On a pair of equal lengths the fill value is the second metric's own sample at the
  same index, and the second metric is not written to.\<close>

lemma equal_length_fill_from_second:
  assumes "mergeFetchResponses a b = Some (Ok (None, a', b'))"
    and "length (Values a) = length (Values b)" and "i < length (Values a)"
  shows "b' = b \<and> length (Values a') = length (Values a) \<and>
         Values a' ! i = (if \<not> IsNaN (Values a ! i) then Values a ! i
                          else if \<not> IsNaN (Values b ! i) then Values b ! i
                          else Values a ! i)"
proof -
  from assms(1) obtain m1 vs where eq: "equalizeLengths a b = Some (Ok (None, m1, b'))"
    and gf: "gap_fill 0 (Values m1) (Values b') = Ok vs" and a': "a' = m1\<lparr>Values := vs\<rparr>"
    by (rule merge_ok_unfold)
  from eq assms(2) have m: "m1 = a" "b' = b" by (simp_all add: equalizeLengths_def)
  from gap_fill_length[OF gf] a' m have len: "length (Values a') = length (Values a)" by simp
  from assms(3) m have "i < length (Values m1)" by simp
  from gap_fill_nth[OF gf this] a' m len show ?thesis by simp
qed

text \<open>
  C2, as the claim states it, on the pair of the test "simple 2": the merge returns no
  error, the first metric's sample at index 1 was the number 3, and the merged sample at
  index 1 is the number 2 of the second metric. The merged series is the longer one.
\<close>

theorem first_writer_wins_counterexample:
  "mergeFetchResponses simple2_m1 simple2_m2 = Some (Ok (None, simple2_m2, simple2_resampled))
   \<and> \<not> IsNaN (Values simple2_m1 ! 1)
   \<and> Values simple2_m2 ! 1 \<noteq> Values simple2_m1 ! 1"
  by code_simp

text \<open>
  C2, amended: when the pair-merge returns without error, the merged series is the longer of
  the two inputs (the first one when it has at least as many samples as the second) with
  its gaps filled from the other input. At every index \<open>i\<close>, a non-NaN sample of the longer
  series is kept. Where it is NaN, the other input has a grid-aligned sample for \<open>i\<close>: its
  own sample at \<open>i\<close> when the lengths are equal (then the other input is the second metric),
  its sample at index \<open>(i * step of the longer) / (its own step)\<close> when it is resampled, its
  sample at \<open>i\<close> or NaN beyond its end when it is padded. The merged sample is that sample
  when it is non-NaN and stays as it was otherwise; the second metric holds the same sample
  at \<open>i\<close> after the merge.
\<close>

theorem merged_sample_from_inputs:
  assumes "mergeFetchResponses a b = Some (Ok (None, a', b'))"
    and "(lg, sh) = (if length (Values a) < length (Values b) then (b, a) else (a, b))"
    and "i < length (Values a')"
  shows "length (Values a') = length (Values lg) \<and>
         (\<not> IsNaN (Values lg ! i) \<longrightarrow> Values a' ! i = Values lg ! i) \<and>
         (IsNaN (Values lg ! i) \<longrightarrow>
            (\<exists>v. grid_aligned lg sh i = Some v \<and>
                 Values a' ! i = (if IsNaN v then Values lg ! i else v) \<and>
                 i < length (Values b') \<and> Values b' ! i = v))"
proof -
  from assms(1) obtain m1 vs where eq: "equalizeLengths a b = Some (Ok (None, m1, b'))"
    and gf: "gap_fill 0 (Values m1) (Values b') = Ok vs" and a': "a' = m1\<lparr>Values := vs\<rparr>"
    by (rule merge_ok_unfold)
  from equalize_Values_first[OF eq] assms(2) have m1: "Values m1 = Values lg"
    by (auto split: if_splits)
  from gap_fill_length[OF gf] a' m1 have len: "length (Values a') = length (Values lg)" by simp
  with assms(3) m1 have im: "i < length (Values m1)" by simp
  note g = gap_fill_nth[OF gf im]
  have keep: "Values a' ! i = Values lg ! i" if "\<not> IsNaN (Values lg ! i)"
    using g that a' m1 by simp
  have fill: "\<exists>v. grid_aligned lg sh i = Some v \<and>
                 Values a' ! i = (if IsNaN v then Values lg ! i else v) \<and>
                 i < length (Values b') \<and> Values b' ! i = v" if nan: "IsNaN (Values lg ! i)"
  proof -
    from g nan m1 have ib: "i < length (Values b')" by simp
    from aligned_second[OF eq assms(2) ib]
    have al: "grid_aligned lg sh i = Some (Values b' ! i)" .
    from g nan m1 a' have "Values a' ! i
        = (if IsNaN (Values b' ! i) then Values lg ! i else Values b' ! i)" by simp
    with al ib show ?thesis by simp
  qed
  from len keep fill show ?thesis by blast
qed
theorem merged_sample_from_inputs_witness:
  "mergeFetchResponses test_gaps1_m1 test_gaps1_m2
     = Some (Ok (None, test_gaps1_expected, test_gaps1_second))
   \<and> length (Values test_gaps1_m1) < length (Values test_gaps1_m2)
   \<and> IsNaN (Values test_gaps1_m2 ! 12)
   \<and> grid_aligned test_gaps1_m2 test_gaps1_m1 12 = Some (Values test_gaps1_m1 ! 6)
   \<and> Values test_gaps1_expected ! 12 = Values test_gaps1_m1 ! 6"
proof -
  have m: "mergeFetchResponses test_gaps1_m1 test_gaps1_m2
     = Some (Ok (None, test_gaps1_expected, test_gaps1_second))"
    by code_simp
  have l: "length (Values test_gaps1_m1) < length (Values test_gaps1_m2)"
    by code_simp
  then have s: "(test_gaps1_m2, test_gaps1_m1)
      = (if length (Values test_gaps1_m1) < length (Values test_gaps1_m2)
         then (test_gaps1_m2, test_gaps1_m1) else (test_gaps1_m1, test_gaps1_m2))"
    by simp
  have i: "12 < length (Values test_gaps1_expected)" by code_simp
  have n: "IsNaN (Values test_gaps1_m2 ! 12)" by code_simp
  have g: "grid_aligned test_gaps1_m2 test_gaps1_m1 12 = Some (Values test_gaps1_m1 ! 6)"
    by code_simp
  have v: "\<not> IsNaN (Values test_gaps1_m1 ! 6)" by code_simp
  from merged_sample_from_inputs[OF m s i] n g v
  have "Values test_gaps1_expected ! 12 = Values test_gaps1_m1 ! 6" by auto
  with m l n g show ?thesis by blast
qed

text \<open>
  C3: when the start times of the pair differ after length equalization,
  \<open>mergeFetchResponses\<close> returns \<open>ErrResponseStartTimeMismatch\<close> and both metrics are as they
  were before the call, samples included.
\<close>

theorem start_mismatch_fails_unchanged:
  assumes "equalizeLengths a b = Some (Ok (None, m1, m2))"
    and "StartTime m1 \<noteq> StartTime m2"
  shows "mergeFetchResponses a b = Some (Ok (Some ErrResponseStartTimeMismatch, a, b))"
proof -
  from equalize_start_differs[OF assms] have "m1 = a" "m2 = b" by simp_all
  with assms show ?thesis by (simp add: mergeFetchResponses_def)
qed

theorem start_mismatch_fails_unchanged_witness:
  "equalizeLengths gaps_a shifted_b = Some (Ok (None, gaps_a, shifted_b))
   \<and> StartTime gaps_a \<noteq> StartTime shifted_b
   \<and> mergeFetchResponses gaps_a shifted_b
       = Some (Ok (Some ErrResponseStartTimeMismatch, gaps_a, shifted_b))"
proof -
  have e: "equalizeLengths gaps_a shifted_b = Some (Ok (None, gaps_a, shifted_b))"
    by (simp add: equalizeLengths_def gaps_a_def gaps_b_def shifted_b_def)
  have s: "StartTime gaps_a \<noteq> StartTime shifted_b"
    by (simp add: gaps_a_def gaps_b_def shifted_b_def)
  from start_mismatch_fails_unchanged[OF e s] e s show ?thesis by simp
qed

text \<open>Conversely, whenever \<open>mergeFetchResponses\<close> returns \<open>ErrResponseStartTimeMismatch\<close>,
  both metrics are as they were before the call.\<close>

lemma equalize_error_is_length_mismatch:
  "equalizeLengths a b = Some (Ok (Some e, m1, m2)) \<Longrightarrow> e = ErrResponseLengthMismatch"
  by (auto simp: equalizeLengths_def Let_def split: if_splits option.splits exec.splits prod.splits)

lemma start_mismatch_only_unchanged:
  assumes "mergeFetchResponses a b = Some (Ok (Some ErrResponseStartTimeMismatch, a', b'))"
  shows "a' = a \<and> b' = b"
proof (cases "equalizeLengths a b")
  case None
  with assms show ?thesis by (simp add: mergeFetchResponses_def)
next
  case (Some x)
  show ?thesis
  proof (cases x)
    case Panic
    with Some assms show ?thesis by (simp add: mergeFetchResponses_def)
  next
    case (Ok y)
    then obtain e m1 m2 where eq: "equalizeLengths a b = Some (Ok (e, m1, m2))"
      using Some by (cases y) auto
    show ?thesis
    proof (cases e)
      case (Some e')
      with eq equalize_error_is_length_mismatch[of a b e' m1 m2] assms show ?thesis
        by (simp add: mergeFetchResponses_def)
    next
      case None
      with eq assms have d: "StartTime m1 \<noteq> StartTime m2" and r: "a' = m1" "b' = m2"
        by (auto simp: mergeFetchResponses_def split: if_splits exec.splits)
      from equalize_start_differs[OF eq[unfolded None] d] r show ?thesis by simp
    qed
  qed
qed

text \<open>
  C10, as the claim states it, on a constant metric sampled at step 120 (one sample) and at
  step 60 (two samples): the lengths differ, the merge returns no error, and the second
  metric after the merge is the second metric before it. The swap put the short series in
  second place and the resampling turned it into what the long one already was.
\<close>

theorem second_no_longer_original_counterexample:
  "length (Values const_lo) \<noteq> length (Values const_hi)
   \<and> mergeFetchResponses const_lo const_hi = Some (Ok (None, const_hi, const_hi))"
  by code_simp

text \<open>
  C10, amended: on a pair of unequal lengths for which the pair-merge returns without error,
  the second argument is rewritten. When the first metric is the shorter one the eight
  fields are exchanged first. Then either the second metric's samples are right-padded with
  NaN (first step not smaller than the second, equal start times; step, start and stop stay
  as they are), or they are replaced by the resampling onto the first metric's grid, and
  step, start and stop time of the second are overwritten with the first's. A second
  argument that was the shorter one differs from its original afterwards.
\<close>

theorem mergeFetchResponses_rewrites_second:
  assumes "length (Values a) \<noteq> length (Values b)"
    and "mergeFetchResponses a b = Some (Ok (None, a', b'))"
    and "(m1, m2) = (if length (Values a) < length (Values b)
                     then swapFetchResponses a b else (a, b))"
  shows "((sint (StepTime m2) \<le> sint (StepTime m1) \<and> StartTime m1 = StartTime m2 \<and>
           (\<exists>k>0. b' = m2\<lparr>Values := Values m2 @ replicate k NaN\<rparr>))
          \<or> (sint (StepTime m1) < sint (StepTime m2) \<and>
              (\<exists>vs. resample_loop (StartTime m1) (StopTime m1) (StepTime m1) (StepTime m2)
                      (Values m2) (StartTime m1) [] = Some (Ok vs) \<and>
                    b' = m2\<lparr>Values := vs, StepTime := StepTime m1,
                            StartTime := StartTime m1, StopTime := StopTime m1\<rparr>)))
         \<and> (length (Values b) < length (Values a) \<longrightarrow> b' \<noteq> b)"
proof -
  from assms(2) obtain x where eq: "equalizeLengths a b = Some (Ok (None, x, b'))"
    by (rule merge_ok_unfold)
  note u = equalize_unequal[OF assms(1) eq assms(3)]
  then have lens: "length (Values m2) < length (Values m1)" by simp
  let ?k = "nat ((int (length (Values m1)) - int (length (Values m2)) - int 0 + 1) div 2)"
  have k: "0 < ?k" using lens by simp
  have pad: "pad_loop 0 (Values m1) (Values m2) = Values m2 @ replicate ?k NaN"
    by (rule pad_loop_eq)
  have first: "(sint (StepTime m2) \<le> sint (StepTime m1) \<and> StartTime m1 = StartTime m2 \<and>
           (\<exists>k>0. b' = m2\<lparr>Values := Values m2 @ replicate k NaN\<rparr>))
          \<or> (sint (StepTime m1) < sint (StepTime m2) \<and>
              (\<exists>vs. resample_loop (StartTime m1) (StopTime m1) (StepTime m1) (StepTime m2)
                      (Values m2) (StartTime m1) [] = Some (Ok vs) \<and>
                    b' = m2\<lparr>Values := vs, StepTime := StepTime m1,
                            StartTime := StartTime m1, StopTime := StopTime m1\<rparr>))"
    using u pad k by metis
  have second: "b' \<noteq> b" if shorter: "length (Values b) < length (Values a)"
  proof -
    from shorter assms(3) have m: "m1 = a" "m2 = b" by simp_all
    from u consider
        (p) "b' = m2\<lparr>Values := pad_loop 0 (Values m1) (Values m2)\<rparr>"
      | (r) "sint (StepTime m1) < sint (StepTime m2)" "StepTime b' = StepTime m1"
      by auto
    then show ?thesis
    proof cases
      case p
      with pad k have "length (Values b') \<noteq> length (Values m2)" by simp
      with m show ?thesis by auto
    next
      case r
      then have "StepTime b' \<noteq> StepTime m2" by auto
      with m show ?thesis by auto
    qed
  qed
  from first second show ?thesis by blast
qed

theorem mergeFetchResponses_rewrites_second_witness:
  "length (Values tail_a) \<noteq> length (Values tail_b)
   \<and> mergeFetchResponses tail_a tail_b
       = Some (Ok (None, tail_a,
                   tail_b\<lparr>Values := [0x3FF0000000000000, 0x4000000000000000, NaN]\<rparr>))
   \<and> tail_b\<lparr>Values := [0x3FF0000000000000, 0x4000000000000000, NaN]\<rparr> \<noteq> tail_b"
proof -
  have h1: "length (Values tail_a) \<noteq> length (Values tail_b)"
    by (simp add: tail_a_def tail_b_def)
  have h2: "mergeFetchResponses tail_a tail_b
       = Some (Ok (None, tail_a,
                   tail_b\<lparr>Values := [0x3FF0000000000000, 0x4000000000000000, NaN]\<rparr>))"
    by code_simp
  have h3: "(tail_a, tail_b) = (if length (Values tail_a) < length (Values tail_b)
                     then swapFetchResponses tail_a tail_b else (tail_a, tail_b))"
    by (simp add: tail_a_def tail_b_def)
  have "length (Values tail_b) < length (Values tail_a)"
    by (simp add: tail_a_def tail_b_def)
  with mergeFetchResponses_rewrites_second[OF h1 h2 h3] h1 h2 show ?thesis by blast
qed

section \<open>The repository's tests of the pair-merge\<close>

text \<open>The five cases of \<open>TestMergeValues\<close>, run on the model: no error, and the first metric
  is the expected one.\<close>

lemma test_simple1:
  "(case mergeFetchResponses test_simple1_m1 test_simple1_m2 of
      Some (Ok (err, m1, m2)) \<Rightarrow> err = None \<and> m1 = test_simple1_expected
    | _ \<Rightarrow> False)"
  by code_simp

lemma test_simple2:
  "(case mergeFetchResponses simple2_m1 simple2_m2 of
      Some (Ok (err, m1, m2)) \<Rightarrow> err = None \<and> m1 = simple2_m2
    | _ \<Rightarrow> False)"
  by code_simp

lemma test_gaps_simple:
  "(case mergeFetchResponses test_gaps_simple_m1 test_gaps_simple_m2 of
      Some (Ok (err, m1, m2)) \<Rightarrow> err = None \<and> m1 = test_gaps_simple_expected
    | _ \<Rightarrow> False)"
  by code_simp

lemma test_gaps1:
  "(case mergeFetchResponses test_gaps1_m1 test_gaps1_m2 of
      Some (Ok (err, m1, m2)) \<Rightarrow> err = None \<and> m1 = test_gaps1_expected
    | _ \<Rightarrow> False)"
  by code_simp

lemma test_fill_end:
  "(case mergeFetchResponses test_fill_end_m1 test_fill_end_m2 of
      Some (Ok (err, m1, m2)) \<Rightarrow> err = None \<and> m1 = test_fill_end_expected
    | _ \<Rightarrow> False)"
  by code_simp

section \<open>Properties of the response-level fetch merge\<close>

text \<open>
  C1 at two failing inputs. \<open>first\<close> holds the metrics \<open>a\<close> and \<open>b\<close>, both a single NaN.
  With \<open>second = [b = 5, c = 7]\<close>, the sample 7 of \<open>c\<close> lands in \<open>a\<close>, \<open>b\<close> keeps its
  gap, and \<open>c\<close> is appended. With \<open>second = [b = 5]\<close> the call panics on
  \<open>second.Response.Metrics[1]\<close>.
\<close>

theorem Merge_pairs_by_swapped_indices:
  "ServerFetchResponse_Merge no_stats
     (fetch_of [series ''a'' [NaN], series ''b'' [NaN]])
     (fetch_of [series ''b'' [0x4014000000000000], series ''c'' [0x401C000000000000]])
   = Some (Ok (fetch_of [series ''a'' [0x401C000000000000], series ''b'' [NaN],
                         series ''c'' [0x401C000000000000]],
               fetch_of [series ''b'' [0x4014000000000000], series ''c'' [0x401C000000000000]]))
   \<and> ServerFetchResponse_Merge no_stats
     (fetch_of [series ''a'' [NaN], series ''b'' [NaN]])
     (fetch_of [series ''b'' [0x4014000000000000]])
   = Some Panic"
  by code_simp

section \<open>Properties of the find merge\<close>

text \<open>What the two indexes hold after the first loop.\<close>

lemma match_pairs_metric_pairs: "match_pairs r = metric_pairs (MultiGlobResponse.Metrics r)"
  by (simp add: match_pairs_def metric_pairs_def)

lemma metric_pairs_simps [simp]:
  "metric_pairs [] = []"
  "metric_pairs (m # ms) = map (\<lambda>mm. (GlobResponse.Name m, Path mm)) (Matches m) @ metric_pairs ms"
  "metric_pairs (xs @ ys) = metric_pairs xs @ metric_pairs ys"
  by (simp_all add: metric_pairs_def)

lemma foldl_insert_keys:
  "foldl (\<lambda>seen mm. insert (f mm) seen) S xs = S \<union> f ` set xs"
  by (induction xs arbitrary: S) auto

lemma seen_first_snd:
  "snd (seen_first i ms idx seen) = seen \<union> match_key ` set (metric_pairs ms)"
proof (induction ms arbitrary: i idx seen)
  case Nil
  then show ?case by simp
next
  case (Cons m ms)
  show ?case
    by (simp add: Cons.IH foldl_insert_keys match_key_def image_Un image_image Un_assoc)
qed

lemma seen_first_fst_other:
  "n \<notin> GlobResponse.Name ` set ms \<Longrightarrow> fst (seen_first i ms idx seen) n = idx n"
  by (induction ms arbitrary: i idx seen) auto

lemma seen_first_fst_Some:
  "fst (seen_first i ms idx seen) n = Some j \<Longrightarrow>
     idx n = Some j \<or> (i \<le> j \<and> j - i < length ms \<and> GlobResponse.Name (ms ! (j - i)) = n)"
proof (induction ms arbitrary: i idx seen)
  case Nil
  then show ?case by simp
next
  case (Cons m ms)
  from Cons.prems have "fst (seen_first (Suc i) ms (idx(GlobResponse.Name m \<mapsto> i))
      (foldl (\<lambda>seen mm. insert (GlobResponse.Name m @ ''.'' @ Path mm) seen) seen (Matches m))) n = Some j"
    by simp
  from Cons.IH[OF this] show ?case
  proof
    assume "(idx(GlobResponse.Name m \<mapsto> i)) n = Some j"
    then show ?thesis by (auto split: if_splits)
  next
    assume a: "Suc i \<le> j \<and> j - Suc i < length ms \<and> GlobResponse.Name (ms ! (j - Suc i)) = n"
    then have "j - i = Suc (j - Suc i)" by arith
    with a show ?thesis by auto
  qed
qed

lemma seen_first_fst_dom:
  "n \<in> GlobResponse.Name ` set ms \<Longrightarrow> \<exists>j. fst (seen_first i ms idx seen) n = Some j"
proof (induction ms arbitrary: i idx seen)
  case Nil
  then show ?case by simp
next
  case (Cons m ms)
  show ?case
  proof (cases "n \<in> GlobResponse.Name ` set ms")
    case True
    from Cons.IH[OF this] show ?thesis by simp
  next
    case False
    with Cons.prems have "n = GlobResponse.Name m" by auto
    with False show ?thesis by (simp add: seen_first_fst_other)
  qed
qed

lemma match_key_inj_path [simp]: "match_key (n, p) = match_key (n, q) \<longleftrightarrow> p = q"
  by (simp add: match_key_def)

lemma set_metric_pairs:
  "set (metric_pairs ms)
     = (\<Union>m\<in>set ms. (\<lambda>mm. (GlobResponse.Name m, Path mm)) ` set (Matches m))"
  by (simp add: metric_pairs_def)

lemma metric_pairs_update:
  assumes "i < length fm"
  shows "set (metric_pairs (fm[i := (fm ! i)\<lparr>Matches := Matches (fm ! i) @ extra\<rparr>]))
           = set (metric_pairs fm) \<union> (\<lambda>mm. (GlobResponse.Name (fm ! i), Path mm)) ` set extra"
proof -
  let ?x = "(fm ! i)\<lparr>Matches := Matches (fm ! i) @ extra\<rparr>"
  have a: "fm = take i fm @ fm ! i # drop (Suc i) fm"
    using assms by (rule id_take_nth_drop)
  have b: "fm[i := ?x] = take i fm @ ?x # drop (Suc i) fm"
    using assms by (rule upd_conv_take_nth_drop)
  have "set (metric_pairs (take i fm @ ?x # drop (Suc i) fm))
          = set (metric_pairs (take i fm @ fm ! i # drop (Suc i) fm))
            \<union> (\<lambda>mm. (GlobResponse.Name (fm ! i), Path mm)) ` set extra"
    by (auto simp: image_Un)
  with a b show ?thesis by simp
qed

lemma distinct_metric_pairs:
  "distinct (map GlobResponse.Name ms) \<Longrightarrow> \<forall>m\<in>set ms. distinct (map Path (Matches m))
     \<Longrightarrow> distinct (metric_pairs ms)"
proof (induction ms)
  case Nil
  then show ?case by simp
next
  case (Cons m ms)
  from Cons.prems have d: "distinct (map Path (Matches m))" by simp
  have "distinct (map (\<lambda>mm. (GlobResponse.Name m, Path mm)) (Matches m))"
    using d by (auto simp: distinct_map inj_on_def)
  moreover from Cons have "distinct (metric_pairs ms)" by simp
  moreover from Cons.prems have
    "set (map (\<lambda>mm. (GlobResponse.Name m, Path mm)) (Matches m)) \<inter> set (metric_pairs ms) = {}"
    by (auto simp: set_metric_pairs)
  ultimately show ?case by simp
qed

text \<open>The inner loop appends to metric \<open>i\<close> the matches whose key was not seen, each path
  once, and marks the keys of all matches of the metric as seen.\<close>

lemma add_matches_spec:
  assumes "i < length fm"
  shows "\<exists>extra. add_matches i mms fm seen
           = Ok (fm[i := (fm ! i)\<lparr>Matches := Matches (fm ! i) @ extra\<rparr>],
                 seen \<union> (\<lambda>mm. match_key (GlobResponse.Name (fm ! i), Path mm)) ` set mms)
         \<and> distinct (map Path extra)
         \<and> Path ` set extra
             = {p \<in> Path ` set mms. match_key (GlobResponse.Name (fm ! i), p) \<notin> seen}"
  using assms
proof (induction mms arbitrary: fm seen)
  case Nil
  have "fm[i := (fm ! i)\<lparr>Matches := Matches (fm ! i) @ []\<rparr>] = fm" by simp
  then show ?case by (intro exI[of _ "[]"]) simp
next
  case (Cons mm mms)
  let ?n = "GlobResponse.Name (fm ! i)"
  let ?k = "match_key (?n, Path mm)"
  let ?f = "\<lambda>mm. match_key (?n, Path mm)"
  have key: "?n @ CHR ''.'' # Path mm = ?k" by (simp add: match_key_def)
  show ?case
  proof (cases "?k \<in> seen")
    case True
    from Cons.IH[OF Cons.prems, of seen] obtain extra where
      e: "add_matches i mms fm seen
           = Ok (fm[i := (fm ! i)\<lparr>Matches := Matches (fm ! i) @ extra\<rparr>], seen \<union> ?f ` set mms)"
      and d: "distinct (map Path extra)"
      and p: "Path ` set extra = {p \<in> Path ` set mms. match_key (?n, p) \<notin> seen}"
      by blast
    have step: "add_matches i (mm # mms) fm seen = add_matches i mms fm seen"
      using True Cons.prems by (simp add: key)
    from True have s: "seen \<union> ?f ` set (mm # mms) = seen \<union> ?f ` set mms"
      by (simp add: insert_absorb)
    from True have p': "{p \<in> Path ` set (mm # mms). match_key (?n, p) \<notin> seen}
            = {p \<in> Path ` set mms. match_key (?n, p) \<notin> seen}" by auto
    have "add_matches i (mm # mms) fm seen
           = Ok (fm[i := (fm ! i)\<lparr>Matches := Matches (fm ! i) @ extra\<rparr>],
                 seen \<union> ?f ` set (mm # mms))"
      by (simp only: step e s)
    moreover have "Path ` set extra
        = {p \<in> Path ` set (mm # mms). match_key (?n, p) \<notin> seen}"
      by (simp only: p p')
    ultimately show ?thesis using d by (intro exI[of _ extra]) (simp only: simp_thms)
  next
    case False
    let ?fm1 = "fm[i := (fm ! i)\<lparr>Matches := Matches (fm ! i) @ [mm]\<rparr>]"
    have l1: "i < length ?fm1" using Cons.prems by simp
    have n1: "GlobResponse.Name (?fm1 ! i) = ?n" using Cons.prems by simp
    from Cons.IH[OF l1, of "insert ?k seen"] obtain extra where
      e: "add_matches i mms ?fm1 (insert ?k seen)
           = Ok (?fm1[i := (?fm1 ! i)\<lparr>Matches := Matches (?fm1 ! i) @ extra\<rparr>],
                 insert ?k seen \<union> (\<lambda>mm. match_key (GlobResponse.Name (?fm1 ! i), Path mm)) ` set mms)"
      and d: "distinct (map Path extra)"
      and p: "Path ` set extra = {p \<in> Path ` set mms.
                 match_key (GlobResponse.Name (?fm1 ! i), p) \<notin> insert ?k seen}"
      by blast
    have u: "?fm1[i := (?fm1 ! i)\<lparr>Matches := Matches (?fm1 ! i) @ extra\<rparr>]
              = fm[i := (fm ! i)\<lparr>Matches := Matches (fm ! i) @ (mm # extra)\<rparr>]"
      using Cons.prems by simp
    have s: "insert ?k seen \<union> ?f ` set mms = seen \<union> ?f ` set (mm # mms)" by simp
    have step: "add_matches i (mm # mms) fm seen = add_matches i mms ?fm1 (insert ?k seen)"
      using False Cons.prems by (simp add: key)
    have r: "add_matches i (mm # mms) fm seen
           = Ok (fm[i := (fm ! i)\<lparr>Matches := Matches (fm ! i) @ (mm # extra)\<rparr>],
                 seen \<union> ?f ` set (mm # mms))"
      by (simp only: step e n1 u s)
    from p have p1: "Path ` set extra = {p \<in> Path ` set mms. match_key (?n, p) \<notin> insert ?k seen}"
      by (simp only: n1)
    then have notin: "Path mm \<notin> Path ` set extra" by simp
    with d have d': "distinct (map Path (mm # extra))" by simp
    have p': "Path ` set (mm # extra)
            = {p \<in> Path ` set (mm # mms). match_key (?n, p) \<notin> seen}"
    proof (rule set_eqI)
      fix q
      show "q \<in> Path ` set (mm # extra)
              \<longleftrightarrow> q \<in> {p \<in> Path ` set (mm # mms). match_key (?n, p) \<notin> seen}"
      proof (cases "q = Path mm")
        case True
        with False show ?thesis by simp
      next
        case qne: False
        have "q \<in> Path ` set (mm # extra) \<longleftrightarrow> q \<in> Path ` set extra"
          using qne by auto
        also have "\<dots> \<longleftrightarrow> q \<in> Path ` set mms \<and> match_key (?n, q) \<notin> insert ?k seen"
          by (simp only: p1 mem_Collect_eq)
        also have "\<dots> \<longleftrightarrow> q \<in> Path ` set mms \<and> match_key (?n, q) \<notin> seen"
          using qne by simp
        also have "\<dots> \<longleftrightarrow> q \<in> {p \<in> Path ` set (mm # mms). match_key (?n, p) \<notin> seen}"
          using qne by auto
        finally show ?thesis .
      qed
    qed
    from r d' p' show ?thesis by (intro exI[of _ "mm # extra"]) (simp only: simp_thms)
  qed
qed

text \<open>
  The loop over the metrics of \<open>second\<close>, with \<open>first\<close> split into the metrics it had at
  the start (\<open>fa\<close>, possibly with matches added) and the metrics appended since (\<open>fb\<close>).
  When no two pairs at hand share a key, the pairs afterwards are the union.
\<close>

lemma find_merge_loop_spec:
  assumes idx1: "\<forall>n j. sM n = Some j \<longrightarrow> j < length ns \<and> ns ! j = n"
    and idx2: "\<forall>n. n \<in> set ns \<longrightarrow> sM n \<noteq> None"
    and names: "map GlobResponse.Name fa = ns"
    and seen: "seen = match_key ` set (metric_pairs fa)"
    and dn: "distinct (map GlobResponse.Name (fa @ fb))"
    and dn2: "distinct (map GlobResponse.Name ms)"
    and disj: "GlobResponse.Name ` set ms \<inter> GlobResponse.Name ` set fb = {}"
    and dp: "\<forall>m\<in>set (fa @ fb). distinct (map Path (Matches m))"
    and dp2: "\<forall>m\<in>set ms. distinct (map Path (Matches m))"
    and inj: "inj_on match_key (set (metric_pairs (fa @ fb)) \<union> set (metric_pairs ms))"
  shows "\<exists>fm' seen'. find_merge_loop sM ms (fa @ fb) seen = Ok (fm', seen') \<and>
           set (metric_pairs fm') = set (metric_pairs (fa @ fb)) \<union> set (metric_pairs ms) \<and>
           distinct (map GlobResponse.Name fm') \<and>
           (\<forall>m\<in>set fm'. distinct (map Path (Matches m)))"
  using names seen dn dn2 disj dp dp2 inj
proof (induction ms arbitrary: fa fb seen)
  case Nil
  then show ?case by simp
next
  case (Cons m ms)
  let ?n = "GlobResponse.Name m"
  let ?pm = "(\<lambda>mm. (?n, Path mm)) ` set (Matches m)"
  note names = Cons.prems(1) and seen = Cons.prems(2) and dn = Cons.prems(3)
    and dn2 = Cons.prems(4) and disj = Cons.prems(5) and dp = Cons.prems(6)
    and dp2 = Cons.prems(7) and inj = Cons.prems(8)
  have pairs_m: "set (metric_pairs (m # ms)) = ?pm \<union> set (metric_pairs ms)" by simp
  show ?case
  proof (cases "sM ?n")
    case None
    with idx2 have nn: "?n \<notin> set ns" by auto
    have step: "find_merge_loop sM (m # ms) (fa @ fb) seen
                  = find_merge_loop sM ms (fa @ (fb @ [m])) seen"
      using None by simp
    have dn': "distinct (map GlobResponse.Name (fa @ (fb @ [m])))"
    proof -
      from nn names have "?n \<notin> GlobResponse.Name ` set fa" by auto
      moreover from disj have "?n \<notin> GlobResponse.Name ` set fb" by auto
      ultimately show ?thesis using dn by auto
    qed
    have dn2': "distinct (map GlobResponse.Name ms)" using dn2 by simp
    have disj': "GlobResponse.Name ` set ms \<inter> GlobResponse.Name ` set (fb @ [m]) = {}"
      using disj dn2 by auto
    have dp': "\<forall>x\<in>set (fa @ (fb @ [m])). distinct (map Path (Matches x))"
      using dp dp2 by auto
    have dp2': "\<forall>x\<in>set ms. distinct (map Path (Matches x))" using dp2 by simp
    have eqs: "set (metric_pairs (fa @ (fb @ [m]))) \<union> set (metric_pairs ms)
                 = set (metric_pairs (fa @ fb)) \<union> set (metric_pairs (m # ms))"
      by auto
    have inj': "inj_on match_key (set (metric_pairs (fa @ (fb @ [m]))) \<union> set (metric_pairs ms))"
      using inj by (simp only: eqs)
    from Cons.IH[OF names seen dn' dn2' disj' dp' dp2' inj'] step eqs
    show ?thesis by (simp only:)
  next
    case (Some i)
    with idx1 have i: "i < length ns" and nsi: "ns ! i = ?n" by auto
    from i names have ifa: "i < length fa" by auto
    then have ifm: "i < length (fa @ fb)" by simp
    from nsi names ifa have nfa: "GlobResponse.Name (fa ! i) = ?n" by auto
    have nth: "(fa @ fb) ! i = fa ! i" using ifa by (simp add: nth_append)
    from add_matches_spec[OF ifm, of "Matches m" seen] nth nfa obtain extra where
      am: "add_matches i (Matches m) (fa @ fb) seen
             = Ok ((fa @ fb)[i := (fa ! i)\<lparr>Matches := Matches (fa ! i) @ extra\<rparr>],
                   seen \<union> (\<lambda>mm. match_key (?n, Path mm)) ` set (Matches m))"
      and de: "distinct (map Path extra)"
      and pe: "Path ` set extra = {p \<in> Path ` set (Matches m). match_key (?n, p) \<notin> seen}"
      by auto
    let ?x = "(fa ! i)\<lparr>Matches := Matches (fa ! i) @ extra\<rparr>"
    let ?fa1 = "fa[i := ?x]"
    let ?seen1 = "seen \<union> (\<lambda>mm. match_key (?n, Path mm)) ` set (Matches m)"
    let ?pe = "(\<lambda>mm. (?n, Path mm)) ` set extra"
    have upd: "(fa @ fb)[i := ?x] = ?fa1 @ fb" using ifa by (simp add: list_update_append1)
    have step: "find_merge_loop sM (m # ms) (fa @ fb) seen
                  = find_merge_loop sM ms (?fa1 @ fb) ?seen1"
      using Some am upd by simp
    have pfa1: "set (metric_pairs ?fa1) = set (metric_pairs fa) \<union> ?pe"
      using metric_pairs_update[OF ifa, of extra] nfa by simp
    have pe_sub: "?pe \<subseteq> ?pm"
    proof
      fix pr assume "pr \<in> ?pe"
      then obtain e where "e \<in> set extra" and pr: "pr = (?n, Path e)" by auto
      then have "Path e \<in> Path ` set extra" by simp
      with pe have "Path e \<in> Path ` set (Matches m)" by simp
      with pr show "pr \<in> ?pm" by auto
    qed
    have in_pe: "(?n, p) \<in> ?pe" if "p \<in> Path ` set (Matches m)" "match_key (?n, p) \<notin> seen" for p
    proof -
      from that pe have "p \<in> Path ` set extra" by simp
      then show ?thesis by auto
    qed
    have names': "map GlobResponse.Name ?fa1 = ns"
    proof -
      have "map GlobResponse.Name ?fa1 = (map GlobResponse.Name fa)[i := GlobResponse.Name ?x]"
        by (simp add: map_update)
      also have "\<dots> = ns[i := ns ! i]" using names nfa nsi by simp
      finally show ?thesis by simp
    qed
    have seen': "?seen1 = match_key ` set (metric_pairs ?fa1)"
    proof (rule set_eqI)
      fix k
      show "k \<in> ?seen1 \<longleftrightarrow> k \<in> match_key ` set (metric_pairs ?fa1)"
      proof
        assume "k \<in> ?seen1"
        then consider (old) "k \<in> seen" | (new) mm where "mm \<in> set (Matches m)"
          "k = match_key (?n, Path mm)" "k \<notin> seen" by auto
        then show "k \<in> match_key ` set (metric_pairs ?fa1)"
        proof cases
          case old
          with seen pfa1 show ?thesis by auto
        next
          case new
          then have "(?n, Path mm) \<in> ?pe" by (intro in_pe) auto
          with new(2) pfa1 show ?thesis by auto
        qed
      next
        assume "k \<in> match_key ` set (metric_pairs ?fa1)"
        with pfa1 consider (old) "k \<in> match_key ` set (metric_pairs fa)"
          | (new) "k \<in> match_key ` ?pe" by auto
        then show "k \<in> ?seen1"
        proof cases
          case old
          with seen show ?thesis by simp
        next
          case new
          with pe_sub have "k \<in> match_key ` ?pm" by auto
          then show ?thesis by auto
        qed
      qed
    qed
    have dn': "distinct (map GlobResponse.Name (?fa1 @ fb))"
    proof -
      have "map GlobResponse.Name (?fa1 @ fb) = map GlobResponse.Name (fa @ fb)"
        using names' names by simp
      with dn show ?thesis by (simp only:)
    qed
    have dn2': "distinct (map GlobResponse.Name ms)" using dn2 by simp
    have disj': "GlobResponse.Name ` set ms \<inter> GlobResponse.Name ` set fb = {}"
      using disj by auto
    have dx: "distinct (map Path (Matches ?x))"
    proof -
      from dp ifa have "distinct (map Path (Matches (fa ! i)))" by simp
      moreover have "Path ` set (Matches (fa ! i)) \<inter> Path ` set extra = {}"
      proof (rule ccontr)
        assume "Path ` set (Matches (fa ! i)) \<inter> Path ` set extra \<noteq> {}"
        then obtain p where p1: "p \<in> Path ` set (Matches (fa ! i))"
          and p2: "p \<in> Path ` set extra" by auto
        from p1 obtain mm where mm: "mm \<in> set (Matches (fa ! i))" and pmm: "p = Path mm"
          by auto
        from ifa have "fa ! i \<in> set fa" by simp
        with mm have "(GlobResponse.Name (fa ! i), Path mm) \<in> set (metric_pairs fa)"
          unfolding set_metric_pairs by blast
        with nfa pmm have "(?n, p) \<in> set (metric_pairs fa)" by simp
        with seen have "match_key (?n, p) \<in> seen" by auto
        moreover from p2 pe have "match_key (?n, p) \<notin> seen" by simp
        ultimately show False by simp
      qed
      ultimately show ?thesis using de by simp
    qed
    have dp': "\<forall>y\<in>set (?fa1 @ fb). distinct (map Path (Matches y))"
    proof
      fix y assume "y \<in> set (?fa1 @ fb)"
      then have "y \<in> set ?fa1 \<or> y \<in> set fb" by simp
      moreover have "set ?fa1 \<subseteq> insert ?x (set fa)" by (rule set_update_subset_insert)
      ultimately have "y = ?x \<or> y \<in> set (fa @ fb)" by auto
      with dx dp show "distinct (map Path (Matches y))" by auto
    qed
    have dp2': "\<forall>x\<in>set ms. distinct (map Path (Matches x))" using dp2 by simp
    have sub: "set (metric_pairs (?fa1 @ fb)) \<union> set (metric_pairs ms)
                 \<subseteq> set (metric_pairs (fa @ fb)) \<union> set (metric_pairs (m # ms))"
      using pfa1 pe_sub by auto
    have inj': "inj_on match_key (set (metric_pairs (?fa1 @ fb)) \<union> set (metric_pairs ms))"
      using inj sub by (rule inj_on_subset)
    have pm_sub: "?pm \<subseteq> set (metric_pairs fa) \<union> ?pe"
    proof
      fix pr assume a: "pr \<in> ?pm"
      then obtain mm where mm: "mm \<in> set (Matches m)" and pr: "pr = (?n, Path mm)" by auto
      show "pr \<in> set (metric_pairs fa) \<union> ?pe"
      proof (cases "match_key pr \<in> seen")
        case False
        with mm pr have "pr \<in> ?pe" by (simp only: pr) (intro in_pe, auto)
        then show ?thesis by simp
      next
        case True
        with seen obtain pr' where pr': "pr' \<in> set (metric_pairs fa)"
          and k: "match_key pr' = match_key pr" by auto
        from pr' have "pr' \<in> set (metric_pairs (fa @ fb)) \<union> set (metric_pairs (m # ms))"
          by simp
        moreover from a have "pr \<in> set (metric_pairs (fa @ fb)) \<union> set (metric_pairs (m # ms))"
          by simp
        ultimately have "pr' = pr" using inj k by (auto dest: inj_onD)
        with pr' show ?thesis by simp
      qed
    qed
    have eqs: "set (metric_pairs (?fa1 @ fb)) \<union> set (metric_pairs ms)
                 = set (metric_pairs (fa @ fb)) \<union> set (metric_pairs (m # ms))"
      using pfa1 pe_sub pm_sub by auto
    from Cons.IH[OF names' seen' dn' dn2' disj' dp' dp2' inj'] step eqs
    show ?thesis by (simp only:)
  qed
qed


text \<open>
  When all names are unique, all paths are unique per metric and no two (name, path) pairs of
  the two responses share a key, \<open>ServerFindResponse.Merge\<close> yields the union of the pairs
  without duplicates; the union does not depend on the order of the two responses.
\<close>

lemma find_Merge_union:
  assumes errA: "ServerFindResponse.Err A = None" and errB: "ServerFindResponse.Err B = None"
    and ra: "ServerFindResponse.Response A = Some ra"
    and rb: "ServerFindResponse.Response B = Some rb"
    and dna: "distinct (map GlobResponse.Name (MultiGlobResponse.Metrics ra))"
    and dnb: "distinct (map GlobResponse.Name (MultiGlobResponse.Metrics rb))"
    and dpa: "\<forall>m\<in>set (MultiGlobResponse.Metrics ra). distinct (map Path (Matches m))"
    and dpb: "\<forall>m\<in>set (MultiGlobResponse.Metrics rb). distinct (map Path (Matches m))"
    and inj: "inj_on match_key (set (match_pairs ra) \<union> set (match_pairs rb))"
  shows "\<exists>A' r. ServerFindResponse_Merge statsMerge A B = Ok (None, A') \<and>
           ServerFindResponse.Response A' = Some r \<and>
           set (match_pairs r) = set (match_pairs ra) \<union> set (match_pairs rb) \<and>
           distinct (match_pairs r)"
proof -
  let ?fa = "MultiGlobResponse.Metrics ra" and ?sm = "MultiGlobResponse.Metrics rb"
  obtain sM seen where sf: "seen_first 0 ?fa Map.empty {} = (sM, seen)"
    by (cases "seen_first 0 ?fa Map.empty {}") auto
  have idx1: "\<forall>n j. sM n = Some j \<longrightarrow>
      j < length (map GlobResponse.Name ?fa) \<and> map GlobResponse.Name ?fa ! j = n"
  proof (intro allI impI)
    fix n j assume "sM n = Some j"
    with sf have "fst (seen_first 0 ?fa Map.empty {}) n = Some j" by simp
    from seen_first_fst_Some[OF this]
    show "j < length (map GlobResponse.Name ?fa) \<and> map GlobResponse.Name ?fa ! j = n"
      by simp
  qed
  have idx2: "\<forall>n. n \<in> set (map GlobResponse.Name ?fa) \<longrightarrow> sM n \<noteq> None"
  proof (intro allI impI)
    fix n assume "n \<in> set (map GlobResponse.Name ?fa)"
    then have "n \<in> GlobResponse.Name ` set ?fa" by simp
    from seen_first_fst_dom[OF this, of 0 Map.empty "{}"] sf show "sM n \<noteq> None" by simp
  qed
  have seen: "seen = match_key ` set (metric_pairs ?fa)"
    using seen_first_snd[of 0 ?fa Map.empty "{}"] sf by simp
  have inj': "inj_on match_key (set (metric_pairs (?fa @ [])) \<union> set (metric_pairs ?sm))"
    using inj by (simp add: match_pairs_metric_pairs)
  from find_merge_loop_spec[where fa="?fa" and fb="[]" and ms="?sm",
         OF idx1 idx2 refl seen _ dnb _ _ dpb inj'] dna dpa
  obtain fm' seen' where l: "find_merge_loop sM ?sm ?fa seen = Ok (fm', seen')"
    and s: "set (metric_pairs fm') = set (metric_pairs ?fa) \<union> set (metric_pairs ?sm)"
    and d1: "distinct (map GlobResponse.Name fm')"
    and d2: "\<forall>m\<in>set fm'. distinct (map Path (Matches m))"
    by auto
  let ?A1 = "A\<lparr>ServerFindResponse.Stats :=
                 statsMerge (ServerFindResponse.Stats A) (ServerFindResponse.Stats B)\<rparr>"
  let ?r = "ra\<lparr>MultiGlobResponse.Metrics := fm'\<rparr>"
  let ?A' = "?A1\<lparr>ServerFindResponse.Response := Some ?r, ServerFindResponse.Err := None\<rparr>"
  have "ServerFindResponse_Merge statsMerge A B = Ok (None, ?A')"
    using errA errB ra rb sf l by (simp add: ServerFindResponse_Merge_def)
  moreover have "ServerFindResponse.Response ?A' = Some ?r" by simp
  moreover have "set (match_pairs ?r) = set (match_pairs ra) \<union> set (match_pairs rb)"
    using s by (simp add: match_pairs_metric_pairs)
  moreover have "distinct (match_pairs ?r)"
    using distinct_metric_pairs[OF d1 d2] by (simp add: match_pairs_metric_pairs)
  ultimately show ?thesis by blast
qed


text \<open>
  C8 at the failing input: \<open>A\<close> has the metric \<open>a\<close> with the path \<open>b.c\<close> and the metric
  \<open>a.b\<close> without matches, \<open>B\<close> has the metric \<open>a.b\<close> with the path \<open>c\<close>. Both pairs have
  the key \<open>a.b.c\<close>. Merging \<open>B\<close> into \<open>A\<close> drops the pair \<open>(a.b, c)\<close>, merging \<open>A\<close> into
  \<open>B\<close> keeps both pairs.
\<close>

theorem find_Merge_key_collision:
  "ServerFindResponse_Merge no_stats
     (find_of [glob ''a'' [''b.c''], glob ''a.b'' []]) (find_of [glob ''a.b'' [''c'']])
   = Ok (None, find_of [glob ''a'' [''b.c''], glob ''a.b'' []])
   \<and> ServerFindResponse_Merge no_stats
     (find_of [glob ''a.b'' [''c'']]) (find_of [glob ''a'' [''b.c''], glob ''a.b'' []])
   = Ok (None, find_of [glob ''a.b'' [''c''], glob ''a'' [''b.c'']])
   \<and> match_pairs \<lparr>MultiGlobResponse.Metrics = [glob ''a'' [''b.c''], glob ''a.b'' []]\<rparr>
       = [(''a'', ''b.c'')]
   \<and> match_pairs \<lparr>MultiGlobResponse.Metrics = [glob ''a.b'' [''c''], glob ''a'' [''b.c'']]\<rparr>
       = [(''a.b'', ''c''), (''a'', ''b.c'')]"
  by code_simp

section \<open>Properties of the gRPC group client\<close>

text \<open>
  C9 at the failing input: when the RPC returns no response (nil, with its error), \<open>Info\<close>
  panics, whatever \<open>Size\<close> does on a nil pointer, whatever the group and the error.
\<close>

theorem grpc_Info_absent_response_panics:
  "grpc_Info Size c (None, err) = Panic"
  by (simp add: grpc_Info_def split: exec.splits)

section \<open>Properties of the retry driver\<close>

text \<open>Every call of \<open>doRequest\<close> that returns has picked exactly one server.\<close>

lemma pickServer_picks:
  "pickServer c tr = Ok (s, c', tr') \<Longrightarrow> picks tr' = Suc (picks tr)"
  by (auto simp: pickServer_def picks_def Let_def split: if_splits)

lemma picks_append_no_pick [simp]:
  "picks (tr @ [Enter g, Leave s]) = picks tr"
  "picks (tr @ [Enter g, BodyClose, Leave s]) = picks tr"
  by (simp_all add: picks_def)

lemma doRequest_picks:
  assumes "doRequest c env uri tr = Ok (r, c', tr')"
  shows "picks tr' = Suc (picks tr)"
proof (cases "pickServer c tr")
  case Panic
  with assms show ?thesis by (simp add: doRequest_def)
next
  case (Ok x)
  then obtain s c1 tr1 where p: "pickServer c tr = Ok (s, c1, tr1)" by (cases x) auto
  from assms have "picks tr' = picks tr1"
    unfolding doRequest_def p
    by (simp split: sum.splits option.splits if_splits) auto
  with pickServer_picks[OF p] show ?thesis by simp
qed

lemma before_attempt_picks:
  "before_attempt envs uri k c tr = Ok (ck, trk) \<Longrightarrow> picks trk = picks tr + k"
proof (induction k arbitrary: ck trk)
  case 0
  then show ?case by simp
next
  case (Suc k)
  from Suc.prems obtain c1 tr1 r where b: "before_attempt envs uri k c tr = Ok (c1, tr1)"
    and d: "doRequest c1 (envs k) uri tr1 = Ok (r, ck, trk)"
    by (auto split: exec.splits)
  from Suc.IH[OF b] doRequest_picks[OF d] show ?case by simp
qed

lemma attempt_Ok_after:
  assumes "attempt envs uri k c tr = Ok (r, c', tr')"
  shows "before_attempt envs uri (Suc k) c tr = Ok (c', tr')"
  using assms by (auto simp: attempt_def split: exec.splits)

lemma DoQuery_loop_retry:
  assumes "int k < n" and "doRequest ck (envs k) uri trk = Ok (Inl e, c', tr')"
    and "e \<noteq> ErrNotFound"
  shows "DoQuery_loop envs uri n (int k) err ck trk
           = DoQuery_loop envs uri n (int k + 1) (Some e) c' tr'"
  using assms by (subst DoQuery_loop.simps) simp

lemma DoQuery_loop_picks_le:
  "DoQuery_loop envs uri n try err c tr = Ok (r, c', tr') \<Longrightarrow>
     picks tr \<le> picks tr' \<and> picks tr' \<le> picks tr + nat (n - try)"
proof (induction envs uri n "try" err c tr rule: DoQuery_loop.induct)
  case (1 envs uri n "try" err c tr)
  show ?case
  proof (cases "try < n")
    case False
    with "1.prems" show ?thesis by (subst (asm) DoQuery_loop.simps) simp
  next
    case True
    note lt = True
    show ?thesis
    proof (cases "doRequest c (envs (nat try)) uri tr")
      case Panic
      with lt "1.prems" show ?thesis by (subst (asm) DoQuery_loop.simps) simp
    next
      case (Ok x)
      then obtain res c1 tr1 where d: "doRequest c (envs (nat try)) uri tr = Ok (res, c1, tr1)"
        by (cases x) auto
      note p = doRequest_picks[OF d]
      show ?thesis
      proof (cases res)
        case (Inr v)
        with lt d "1.prems" p show ?thesis
          by (subst (asm) DoQuery_loop.simps) auto
      next
        case (Inl e)
        show ?thesis
        proof (cases "e = ErrNotFound")
          case True
          with Inl lt d "1.prems" p show ?thesis
            by (subst (asm) DoQuery_loop.simps) auto
        next
          case False
          with Inl lt d "1.prems" have
            "DoQuery_loop envs uri n (try + 1) (Some e) c1 tr1 = Ok (r, c', tr')"
            by (subst (asm) DoQuery_loop.simps) simp
          from "1.IH"[OF lt d[unfolded Inl] refl refl refl False this] p lt show ?thesis
            by auto
        qed
      qed
    qed
  qed
qed

lemma DoQuery_loop_picks_next:
  assumes "try < n" and "DoQuery_loop envs uri n try err c tr = Ok (r, c', tr')"
  shows "picks tr + 1 \<le> picks tr'"
proof (cases "doRequest c (envs (nat try)) uri tr")
  case Panic
  with assms show ?thesis by (subst (asm) DoQuery_loop.simps) simp
next
  case (Ok x)
  then obtain res c1 tr1 where d: "doRequest c (envs (nat try)) uri tr = Ok (res, c1, tr1)"
    by (cases x) auto
  note p = doRequest_picks[OF d]
  show ?thesis
  proof (cases res)
    case (Inr v)
    with assms d p show ?thesis by (subst (asm) DoQuery_loop.simps) auto
  next
    case (Inl e)
    show ?thesis
    proof (cases "e = ErrNotFound")
      case True
      with Inl assms d p show ?thesis by (subst (asm) DoQuery_loop.simps) auto
    next
      case False
      with Inl assms d have "DoQuery_loop envs uri n (try + 1) (Some e) c1 tr1 = Ok (r, c', tr')"
        by (subst (asm) DoQuery_loop.simps) simp
      from DoQuery_loop_picks_le[OF this] p show ?thesis by simp
    qed
  qed
qed

lemma DoQuery_loop_prefix:
  assumes "\<forall>j<m. \<exists>e cj trj. attempt envs uri j c tr = Ok (Inl e, cj, trj) \<and> e \<noteq> ErrNotFound"
    and "int m \<le> n"
  shows "\<exists>cm trm err. before_attempt envs uri m c tr = Ok (cm, trm) \<and>
           DoQuery_loop envs uri n 0 None c tr = DoQuery_loop envs uri n (int m) err cm trm \<and>
           (case m of 0 \<Rightarrow> err = None
            | Suc m' \<Rightarrow> \<exists>e. attempt envs uri m' c tr = Ok (Inl e, cm, trm) \<and> err = Some e)"
  using assms
proof (induction m)
  case 0
  then show ?case by simp
next
  case (Suc m)
  from Suc.prems have prev: "\<forall>j<m. \<exists>e cj trj. attempt envs uri j c tr = Ok (Inl e, cj, trj) \<and> e \<noteq> ErrNotFound"
    and mn: "int m < n" by auto
  from Suc.IH[OF prev] mn obtain cm trm err where b: "before_attempt envs uri m c tr = Ok (cm, trm)"
    and l: "DoQuery_loop envs uri n 0 None c tr = DoQuery_loop envs uri n (int m) err cm trm"
    by auto
  from Suc.prems(1) have "\<exists>e cj trj. attempt envs uri m c tr = Ok (Inl e, cj, trj) \<and> e \<noteq> ErrNotFound"
    by simp
  then obtain e c' tr' where a: "attempt envs uri m c tr = Ok (Inl e, c', tr')"
    and ne: "e \<noteq> ErrNotFound" by blast
  from a b have d: "doRequest cm (envs m) uri trm = Ok (Inl e, c', tr')"
    by (simp add: attempt_def)
  have "int (Suc m) = int m + 1" by simp
  with DoQuery_loop_retry[where envs=envs and k=m and err=err, OF mn d ne] l
  have "DoQuery_loop envs uri n 0 None c tr = DoQuery_loop envs uri n (int (Suc m)) (Some e) c' tr'"
    by (simp add: add.commute)
  moreover note attempt_Ok_after[OF a] a
  ultimately show ?case by simp
qed

text \<open>
  C4: in a run of \<open>DoQuery\<close> whose rounds before round \<open>k\<close> failed with other errors and
  whose round \<open>k\<close> returns \<open>ErrNotFound\<close>, \<open>DoQuery\<close> returns \<open>(nil, ErrNotFound)\<close>; the
  query object and the trace are those that round \<open>k\<close> left, so nothing ran after it, and the
  trace holds \<open>k + 1\<close> picks more than at the start.
\<close>

theorem DoQuery_NotFound_short_circuit:
  assumes "int k < max (maxTries c) (int (length (HttpQuery.servers c)))"
    and "\<forall>j<k. \<exists>e cj trj. attempt envs uri j c tr = Ok (Inl e, cj, trj) \<and> e \<noteq> ErrNotFound"
    and "attempt envs uri k c tr = Ok (Inl ErrNotFound, c', tr')"
  shows "DoQuery envs uri c tr = Ok ((None, Some ErrNotFound), c', tr')
         \<and> picks tr' = picks tr + k + 1"
proof -
  let ?n = "max (maxTries c) (int (length (HttpQuery.servers c)))"
  have dq: "DoQuery envs uri c tr = DoQuery_loop envs uri ?n 0 None c tr"
    by (simp add: DoQuery_def max_def)
  from assms(1) have "int k \<le> ?n" by simp
  from DoQuery_loop_prefix[where envs=envs and uri=uri and c=c and tr=tr and m=k and n="?n",
         OF assms(2) this]
  obtain ck trk err where b: "before_attempt envs uri k c tr = Ok (ck, trk)"
    and l: "DoQuery_loop envs uri ?n 0 None c tr = DoQuery_loop envs uri ?n (int k) err ck trk"
    by blast
  from assms(3) b have d: "doRequest ck (envs k) uri trk = Ok (Inl ErrNotFound, c', tr')"
    by (simp add: attempt_def)
  from assms(1) d
  have "DoQuery_loop envs uri ?n (int k) err ck trk = Ok ((None, Some ErrNotFound), c', tr')"
    by (subst DoQuery_loop.simps) simp
  moreover from before_attempt_picks[OF b] doRequest_picks[OF d]
  have "picks tr' = picks tr + k + 1" by simp
  ultimately show ?thesis using dq l by simp
qed

theorem DoQuery_NotFound_short_circuit_witness:
  "attempt envs_503_then_404 ''/render'' 0 query2 []
     = Ok (Inl (ErrFailedToFetch ''group1'' 503), query2\<lparr>counter := 1\<rparr>,
           [Picked ''http://b:8080'', Enter ''group1'', BodyClose, Leave ''http://b:8080''])
   \<and> attempt envs_503_then_404 ''/render'' 1 query2 []
     = Ok (Inl ErrNotFound, query2\<lparr>counter := 2\<rparr>,
           [Picked ''http://b:8080'', Enter ''group1'', BodyClose, Leave ''http://b:8080'',
            Picked ''http://a:8080'', Enter ''group1'', BodyClose, Leave ''http://a:8080''])
   \<and> DoQuery envs_503_then_404 ''/render'' query2 []
     = Ok ((None, Some ErrNotFound), query2\<lparr>counter := 2\<rparr>,
           [Picked ''http://b:8080'', Enter ''group1'', BodyClose, Leave ''http://b:8080'',
            Picked ''http://a:8080'', Enter ''group1'', BodyClose, Leave ''http://a:8080''])"
proof -
  have h1: "int 1 < max (maxTries query2) (int (length (HttpQuery.servers query2)))"
    by (simp add: query2_def)
  have a0: "attempt envs_503_then_404 ''/render'' 0 query2 []
     = Ok (Inl (ErrFailedToFetch ''group1'' 503), query2\<lparr>counter := 1\<rparr>,
           [Picked ''http://b:8080'', Enter ''group1'', BodyClose, Leave ''http://b:8080''])"
    by code_simp
  then have h2: "\<forall>j<(1::nat). \<exists>e cj trj.
      attempt envs_503_then_404 ''/render'' j query2 [] = Ok (Inl e, cj, trj) \<and> e \<noteq> ErrNotFound"
    by simp
  have h3: "attempt envs_503_then_404 ''/render'' 1 query2 []
     = Ok (Inl ErrNotFound, query2\<lparr>counter := 2\<rparr>,
           [Picked ''http://b:8080'', Enter ''group1'', BodyClose, Leave ''http://b:8080'',
            Picked ''http://a:8080'', Enter ''group1'', BodyClose, Leave ''http://a:8080''])"
    by code_simp
  from DoQuery_NotFound_short_circuit[where envs=envs_503_then_404 and k=1 and c=query2
         and uri="''/render''" and tr="[]", OF h1 h2 h3] a0 h3
  show ?thesis by blast
qed

text \<open>
  C5: a run of \<open>DoQuery\<close> that returns has picked a server at most
  \<open>max(maxTries, len(servers))\<close> times, once per attempt; when there is at least one attempt
  and every attempt fails with an error other than \<open>ErrNotFound\<close>, \<open>DoQuery\<close> returns the
  error of the last attempt, after exactly that many attempts.
\<close>

theorem DoQuery_attempts_bounded_last_error:
  assumes "n = nat (max (maxTries c) (int (length (HttpQuery.servers c))))"
  shows "(\<forall>r c' tr'. DoQuery envs uri c tr = Ok (r, c', tr') \<longrightarrow> picks tr' \<le> picks tr + n) \<and>
         (0 < n \<longrightarrow>
          (\<forall>j<n. \<exists>e cj trj. attempt envs uri j c tr = Ok (Inl e, cj, trj) \<and> e \<noteq> ErrNotFound) \<longrightarrow>
          (\<exists>e c' tr'. attempt envs uri (n - 1) c tr = Ok (Inl e, c', tr') \<and>
             DoQuery envs uri c tr = Ok ((None, Some e), c', tr') \<and> picks tr' = picks tr + n))"
proof -
  let ?n = "max (maxTries c) (int (length (HttpQuery.servers c)))"
  have dq: "DoQuery envs uri c tr = DoQuery_loop envs uri ?n 0 None c tr"
    by (simp add: DoQuery_def max_def)
  have bound: "picks tr' \<le> picks tr + n" if "DoQuery envs uri c tr = Ok (r, c', tr')" for r c' tr'
  proof -
    from that dq have "DoQuery_loop envs uri ?n 0 None c tr = Ok (r, c', tr')" by simp
    from DoQuery_loop_picks_le[OF this] assms show ?thesis by simp
  qed
  have last: "\<exists>e c' tr'. attempt envs uri (n - 1) c tr = Ok (Inl e, c', tr') \<and>
             DoQuery envs uri c tr = Ok ((None, Some e), c', tr') \<and> picks tr' = picks tr + n"
    if pos: "0 < n"
      and all: "\<forall>j<n. \<exists>e cj trj. attempt envs uri j c tr = Ok (Inl e, cj, trj) \<and> e \<noteq> ErrNotFound"
  proof -
    from pos assms have eq: "int n = ?n" by simp
    then have le: "int n \<le> ?n" by simp
    from pos obtain n' where n': "n = Suc n'" by (cases n) auto
    from DoQuery_loop_prefix[where envs=envs and uri=uri and c=c and tr=tr and m=n and n="?n",
           OF all le] n'
    obtain cm trm err e where b: "before_attempt envs uri n c tr = Ok (cm, trm)"
      and l: "DoQuery_loop envs uri ?n 0 None c tr = DoQuery_loop envs uri ?n (int n) err cm trm"
      and a: "attempt envs uri n' c tr = Ok (Inl e, cm, trm)" and err: "err = Some e"
      by auto
    have "DoQuery_loop envs uri ?n (int n) err cm trm = Ok ((None, err), cm, trm)"
      using eq by (subst DoQuery_loop.simps) simp
    with dq l err have "DoQuery envs uri c tr = Ok ((None, Some e), cm, trm)" by simp
    moreover from before_attempt_picks[OF b] have "picks trm = picks tr + n" .
    ultimately show ?thesis using a n' by auto
  qed
  from bound last show ?thesis by blast
qed

theorem DoQuery_attempts_bounded_last_error_witness:
  "attempt envs_all_503 ''/render'' 1 query2 []
     = Ok (Inl (ErrFailedToFetch ''group1'' 503), query2\<lparr>counter := 2\<rparr>,
           [Picked ''http://b:8080'', Enter ''group1'', BodyClose, Leave ''http://b:8080'',
            Picked ''http://a:8080'', Enter ''group1'', BodyClose, Leave ''http://a:8080''])
   \<and> DoQuery envs_all_503 ''/render'' query2 []
     = Ok ((None, Some (ErrFailedToFetch ''group1'' 503)), query2\<lparr>counter := 2\<rparr>,
           [Picked ''http://b:8080'', Enter ''group1'', BodyClose, Leave ''http://b:8080'',
            Picked ''http://a:8080'', Enter ''group1'', BodyClose, Leave ''http://a:8080''])"
proof -
  have n: "(2::nat) = nat (max (maxTries query2) (int (length (HttpQuery.servers query2))))"
    by (simp add: query2_def)
  have a0: "attempt envs_all_503 ''/render'' 0 query2 []
     = Ok (Inl (ErrFailedToFetch ''group1'' 503), query2\<lparr>counter := 1\<rparr>,
           [Picked ''http://b:8080'', Enter ''group1'', BodyClose, Leave ''http://b:8080''])"
    by code_simp
  have a1: "attempt envs_all_503 ''/render'' 1 query2 []
     = Ok (Inl (ErrFailedToFetch ''group1'' 503), query2\<lparr>counter := 2\<rparr>,
           [Picked ''http://b:8080'', Enter ''group1'', BodyClose, Leave ''http://b:8080'',
            Picked ''http://a:8080'', Enter ''group1'', BodyClose, Leave ''http://a:8080''])"
    by code_simp
  have all: "\<forall>j<(2::nat). \<exists>e cj trj.
      attempt envs_all_503 ''/render'' j query2 [] = Ok (Inl e, cj, trj) \<and> e \<noteq> ErrNotFound"
    using a0 a1 by (auto simp: less_Suc_eq numeral_2_eq_2)
  from DoQuery_attempts_bounded_last_error[where envs=envs_all_503 and n=2
         and c=query2 and uri="''/render''" and tr="[]", OF n] all a1
  show ?thesis by auto
qed

text \<open>
  C6, as the claim states it, for a caller whose context is cancelled before the first
  attempt, on a group with one server and three tries: the first attempt fails with the
  cancellation error, and \<open>DoQuery\<close> goes on to pick a server two more times.
\<close>

theorem cancellation_not_retried_counterexample:
  "attempt envs_all_cancelled ''/render'' 0 query1 []
     = Ok (Inl ContextCanceled, query1, [Picked ''http://a:8080''])
   \<and> DoQuery envs_all_cancelled ''/render'' query1 []
     = Ok ((None, Some ContextCanceled), query1,
           [Picked ''http://a:8080'', Picked ''http://a:8080'', Picked ''http://a:8080''])"
  by code_simp

text \<open>
  C6, amended: a cancellation or deadline error is treated like every error other than
  \<open>ErrNotFound\<close>. When round \<open>k\<close> fails with it and a round remains, \<open>DoQuery\<close> makes the
  next attempt: a run that returns has picked at least \<open>k + 2\<close> servers, and when the next
  attempt succeeds \<open>DoQuery\<close> returns its response and no error.
\<close>

theorem DoQuery_retries_after_cancellation:
  assumes "int k + 1 < max (maxTries c) (int (length (HttpQuery.servers c)))"
    and "\<forall>j<k. \<exists>e cj trj. attempt envs uri j c tr = Ok (Inl e, cj, trj) \<and> e \<noteq> ErrNotFound"
    and "attempt envs uri k c tr = Ok (Inl e, ck, trk)"
    and "e = ContextCanceled \<or> e = ContextDeadlineExceeded"
  shows "(\<forall>r c' tr'. DoQuery envs uri c tr = Ok (r, c', tr') \<longrightarrow> picks tr + k + 2 \<le> picks tr') \<and>
         (\<forall>res c2 tr2. attempt envs uri (Suc k) c tr = Ok (Inr res, c2, tr2) \<longrightarrow>
            DoQuery envs uri c tr = Ok ((Some res, None), c2, tr2))"
proof -
  let ?n = "max (maxTries c) (int (length (HttpQuery.servers c)))"
  have dq: "DoQuery envs uri c tr = DoQuery_loop envs uri ?n 0 None c tr"
    by (simp add: DoQuery_def max_def)
  from assms(4) have ne: "e \<noteq> ErrNotFound" by auto
  have all: "\<forall>j<Suc k. \<exists>e cj trj. attempt envs uri j c tr = Ok (Inl e, cj, trj) \<and> e \<noteq> ErrNotFound"
    using assms(2,3) ne by (auto simp: less_Suc_eq)
  from assms(1) have le: "int (Suc k) \<le> ?n" and lt: "int (Suc k) < ?n" by simp_all
  from DoQuery_loop_prefix[where envs=envs and uri=uri and c=c and tr=tr and m="Suc k"
         and n="?n", OF all le] assms(3)
  obtain err where b: "before_attempt envs uri (Suc k) c tr = Ok (ck, trk)"
    and l: "DoQuery_loop envs uri ?n 0 None c tr = DoQuery_loop envs uri ?n (int (Suc k)) err ck trk"
    by auto
  from before_attempt_picks[OF b] have pk: "picks trk = picks tr + Suc k" .
  have one: "picks tr + k + 2 \<le> picks tr'" if "DoQuery envs uri c tr = Ok (r, c', tr')" for r c' tr'
  proof -
    from that dq l have "DoQuery_loop envs uri ?n (int (Suc k)) err ck trk = Ok (r, c', tr')"
      by simp
    from DoQuery_loop_picks_next[OF lt this] pk show ?thesis by simp
  qed
  have two: "DoQuery envs uri c tr = Ok ((Some res, None), c2, tr2)"
    if "attempt envs uri (Suc k) c tr = Ok (Inr res, c2, tr2)" for res c2 tr2
  proof -
    from that b have "doRequest ck (envs (Suc k)) uri trk = Ok (Inr res, c2, tr2)"
      by (simp add: attempt_def)
    moreover have "nat (1 + int k) = Suc k" by simp
    ultimately have "DoQuery_loop envs uri ?n (int (Suc k)) err ck trk = Ok ((Some res, None), c2, tr2)"
      using lt by (subst DoQuery_loop.simps) simp
    with dq l show ?thesis by simp
  qed
  from one two show ?thesis by blast
qed

theorem DoQuery_retries_after_cancellation_witness:
  "attempt envs_cancelled_then_200 ''/render'' 0 query1 []
     = Ok (Inl ContextCanceled, query1, [Picked ''http://a:8080''])
   \<and> DoQuery envs_cancelled_then_200 ''/render'' query1 []
     = Ok ((Some \<lparr>Server = ''http://a:8080'', ServerResponse.Response = []\<rparr>, None), query1,
           [Picked ''http://a:8080'', Picked ''http://a:8080'', Enter ''group1'', BodyClose,
            Leave ''http://a:8080''])"
proof -
  have h1: "int 0 + 1 < max (maxTries query1) (int (length (HttpQuery.servers query1)))"
    by (simp add: query1_def)
  have h2: "\<forall>j<(0::nat). \<exists>e cj trj.
      attempt envs_cancelled_then_200 ''/render'' j query1 [] = Ok (Inl e, cj, trj) \<and> e \<noteq> ErrNotFound"
    by simp
  have h3: "attempt envs_cancelled_then_200 ''/render'' 0 query1 []
     = Ok (Inl ContextCanceled, query1, [Picked ''http://a:8080''])"
    by code_simp
  have h4: "ContextCanceled = ContextCanceled \<or> ContextCanceled = ContextDeadlineExceeded"
    by simp
  have a1: "attempt envs_cancelled_then_200 ''/render'' (Suc 0) query1 []
     = Ok (Inr \<lparr>Server = ''http://a:8080'', ServerResponse.Response = []\<rparr>, query1,
           [Picked ''http://a:8080'', Picked ''http://a:8080'', Enter ''group1'', BodyClose,
            Leave ''http://a:8080''])"
    by code_simp
  from DoQuery_retries_after_cancellation[where envs=envs_cancelled_then_200 and k=0
         and c=query1 and uri="''/render''" and tr="[]", OF h1 h2 h3 h4] a1 h3
  show ?thesis by blast
qed

section \<open>Properties of a single attempt\<close>

text \<open>
  The limiter events of one attempt that returns: none when the attempt ends before the slot
  is acquired, otherwise one acquisition under the group name and, at the return, one release
  under the picked server.
\<close>

lemma pickServer_trace:
  "pickServer c tr = Ok (s, c', tr') \<Longrightarrow> tr' = tr @ [Picked s]"
  by (auto simp: pickServer_def Let_def split: if_splits)

lemma doRequest_trace:
  assumes "doRequest c env uri tr = Ok (r, c', tr')"
  shows "\<exists>srv. tr' = tr @ [Picked srv]
           \<or> tr' = tr @ [Picked srv, Enter (HttpQuery.groupName c), Leave srv]
           \<or> tr' = tr @ [Picked srv, Enter (HttpQuery.groupName c), BodyClose, Leave srv]"
proof (cases "pickServer c tr")
  case Panic
  with assms show ?thesis by (simp add: doRequest_def)
next
  case (Ok x)
  then obtain s c1 tr1 where p: "pickServer c tr = Ok (s, c1, tr1)" by (cases x) auto
  from pickServer_trace[OF p] have tr1: "tr1 = tr @ [Picked s]" .
  from assms have "tr' = tr1 \<or> tr' = tr1 @ [Enter (HttpQuery.groupName c), Leave s]
      \<or> tr' = tr1 @ [Enter (HttpQuery.groupName c), BodyClose, Leave s]"
    unfolding doRequest_def p
    by (simp split: sum.splits option.splits if_splits)
  with tr1 show ?thesis by auto
qed

text \<open>
  C7 at the failing input: group \<open>group1\<close> with the server \<open>http://a:8080\<close>, a backend that
  answers 200. The slot is acquired under the key \<open>group1\<close> and released under the key
  \<open>http://a:8080\<close>.
\<close>

theorem doRequest_leaves_under_server_key:
  "doRequest query1 (env_status 200) ''/render'' []
     = Ok (Inr \<lparr>Server = ''http://a:8080'', ServerResponse.Response = []\<rparr>, query1,
           [Picked ''http://a:8080'', Enter ''group1'', BodyClose, Leave ''http://a:8080''])"
  by (simp add: doRequest_def pickServer_def query1_def env_status_def)

end
